theory Spec2Isabelle
  imports Complex_Main "HOL-Library.AList" "HOL-Library.Log_Nat"
begin

section \<open>Python data: dictionaries, numbers, errors\<close>

text \<open>
  The scorer of \<^verbatim>\<open>src/reposcore/analyzer.py\<close> works on Python dictionaries. A Python
  \<^verbatim>\<open>dict\<close> keeps its keys in insertion order, and assigning to a key that is already
  there keeps the key's position, so a dictionary is an association list and
  \<^verbatim>\<open>d[k] = v\<close> is \<^const>\<open>AList.update\<close>. Reading \<^verbatim>\<open>d[k]\<close> raises \<^verbatim>\<open>KeyError\<close>
  when the key is missing; \<^verbatim>\<open>d.get(k, default)\<close> does not.

  The counters of a participant and the weights are Python integers (\<^typ>\<open>int\<close>). The
  values of a score entry are Python numbers, integers and floats mixed (\<^verbatim>\<open>0.0\<close>, a
  weighted count, a rounded percentage, a rank). A Python float is an IEEE 754 double,
  which is a rational number, so the values are embedded in \<^typ>\<open>rat\<close>, and each float
  operation of \<^verbatim>\<open>_finalize_scores\<close> rounds its exact result to the nearest double.
  Methods are named as in the source without the leading underscore.
\<close>

datatype py_error = KeyError string

type_synonym ('k, 'v) dict = "('k \<times> 'v) list"

definition setitem :: "('k, 'v) dict \<Rightarrow> 'k \<Rightarrow> 'v \<Rightarrow> ('k, 'v) dict" where
  "setitem d k v = AList.update k v d"

definition getitem :: "(string, 'v) dict \<Rightarrow> string \<Rightarrow> py_error + 'v" where
  "getitem d k = (case map_of d k of None \<Rightarrow> Inl (KeyError k) | Some v \<Rightarrow> Inr v)"

definition dict_get :: "('k, 'v) dict \<Rightarrow> 'k \<Rightarrow> 'v \<Rightarrow> 'v" where
  "dict_get d k dflt = (case map_of d k of None \<Rightarrow> dflt | Some v \<Rightarrow> v)"

type_synonym activities = "(string, int) dict"

type_synonym entry = "(string, rat) dict"

section \<open>Python floats\<close>

text \<open>
  Rounding to an integer, a tie going to the even neighbour.
\<close>

definition round_half_even :: "rat \<Rightarrow> int" where
  "round_half_even y =
     (let f = \<lfloor>y\<rfloor>;
          r = y - of_int f
      in if r < 1 / 2 then f else if 1 / 2 < r then f + 1
         else if even f then f else f + 1)"

text \<open>
  The binary exponent of a non-zero rational \<open>x\<close>: the \<open>e\<close> with
  \<open>2 ^ e \<le> \<bar>x\<bar> < 2 ^ (e + 1)\<close>, found from the bit lengths of numerator and denominator.
\<close>

definition float_exponent :: "rat \<Rightarrow> int" where
  "float_exponent x =
     (case quotient_of \<bar>x\<bar> of
        (a, b) \<Rightarrow>
          (let k = bitlen a - bitlen b
           in if 2 powi k \<le> \<bar>x\<bar> then k else k - 1))"

text \<open>
  The double nearest to a rational, ties to the even significand (the IEEE 754 default
  rounding, which Python uses): 53 significant bits for a normal number, multiples of
  \<open>2 ^ -1074\<close> below \<open>2 ^ -1022\<close>. The exponent is not bounded above: a result beyond the
  largest double (about \<open>1.8e308\<close>), where Python raises \<^verbatim>\<open>OverflowError\<close> or gives
  \<^verbatim>\<open>inf\<close>, is not modelled. With counters that are not negative no quotient of
  \<^verbatim>\<open>_finalize_scores\<close> exceeds 1.
\<close>

definition nearest_double :: "rat \<Rightarrow> rat" where
  "nearest_double x =
     (if x = 0 then 0
      else
        (let e = max (float_exponent x) (- 1022);
             ulp = 2 powi (e - 52)
         in of_int (round_half_even (x / ulp)) * ulp))"

text \<open>
  \<^verbatim>\<open>x / y\<close> (true division, correctly rounded also when both operands are integers)
  and \<^verbatim>\<open>x * y\<close> on floats.
\<close>

definition float_truediv :: "rat \<Rightarrow> rat \<Rightarrow> rat" where
  "float_truediv x y = nearest_double (x / y)"

definition float_mul :: "rat \<Rightarrow> rat \<Rightarrow> rat" where
  "float_mul x y = nearest_double (x * y)"

text \<open>
  \<^verbatim>\<open>round(x, ndigits)\<close>: the exact value of \<open>x\<close> is rounded to the nearest multiple of
  \<^verbatim>\<open>10 ** -ndigits\<close>, a tie going to the even neighbour, and the result is the double
  nearest to that decimal number.
\<close>

definition py_round :: "rat \<Rightarrow> nat \<Rightarrow> rat" where
  "py_round x ndigits =
     nearest_double (of_int (round_half_even (x * 10 ^ ndigits)) / 10 ^ ndigits)"

section \<open>The scoring weights\<close>

record weights =
  feat_bug_pr :: int
  doc_pr :: int
  typo_pr :: int
  feat_bug_is :: int
  doc_is :: int

definition SCORE_WEIGHTS :: weights where
  "SCORE_WEIGHTS =
     \<lparr>feat_bug_pr = 3, doc_pr = 2, typo_pr = 1, feat_bug_is = 2, doc_is = 1\<rparr>"

text \<open>\<^verbatim>\<open>self.score = self.SCORE_WEIGHTS.copy()\<close>\<close>

definition score :: weights where
  "score = SCORE_WEIGHTS"

section \<open>Counts of one participant\<close>

definition extract_pr_counts :: "activities \<Rightarrow> int \<times> int \<times> int \<times> int \<times> int" where
  "extract_pr_counts activities =
     (let p_f = dict_get activities ''p_enhancement'' 0;
          p_b = dict_get activities ''p_bug'' 0;
          p_d = dict_get activities ''p_documentation'' 0;
          p_t = dict_get activities ''p_typo'' 0;
          p_fb = p_f + p_b
      in (p_f, p_b, p_d, p_t, p_fb))"

definition extract_issue_counts :: "activities \<Rightarrow> int \<times> int \<times> int \<times> int" where
  "extract_issue_counts activities =
     (let i_f = dict_get activities ''i_enhancement'' 0;
          i_b = dict_get activities ''i_bug'' 0;
          i_d = dict_get activities ''i_documentation'' 0;
          i_fb = i_f + i_b
      in (i_f, i_b, i_d, i_fb))"

definition calculate_valid_counts :: "int \<Rightarrow> int \<Rightarrow> int \<Rightarrow> int \<Rightarrow> int \<Rightarrow> int \<times> int" where
  "calculate_valid_counts p_fb p_d p_t i_fb i_d =
     (let p_valid = p_fb + min (p_d + p_t) (3 * max p_fb 1);
          i_valid = min (i_fb + i_d) (4 * p_valid)
      in (p_valid, i_valid))"

definition calculate_adjusted_counts ::
  "int \<Rightarrow> int \<Rightarrow> int \<Rightarrow> int \<Rightarrow> int \<Rightarrow> int \<times> int \<times> int \<times> int \<times> int" where
  "calculate_adjusted_counts p_fb p_d p_valid i_fb i_valid =
     (let p_fb_at = min p_fb p_valid;
          p_d_at = min p_d (p_valid - p_fb_at);
          p_t_at = p_valid - p_fb_at - p_d_at;
          i_fb_at = min i_fb i_valid;
          i_d_at = i_valid - i_fb_at
      in (p_fb_at, p_d_at, p_t_at, i_fb_at, i_d_at))"

definition calculate_total_score :: "int \<Rightarrow> int \<Rightarrow> int \<Rightarrow> int \<Rightarrow> int \<Rightarrow> int" where
  "calculate_total_score p_fb_at p_d_at p_t_at i_fb_at i_d_at =
     feat_bug_pr score * p_fb_at +
     doc_pr score * p_d_at +
     typo_pr score * p_t_at +
     feat_bug_is score * i_fb_at +
     doc_is score * i_d_at"

definition create_score_dict :: "int \<Rightarrow> int \<Rightarrow> int \<Rightarrow> int \<Rightarrow> int \<Rightarrow> int \<Rightarrow> entry" where
  "create_score_dict p_fb_at p_d_at p_t_at i_fb_at i_d_at total' =
     [(''feat/bug PR'', of_int (feat_bug_pr score * p_fb_at)),
      (''document PR'', of_int (doc_pr score * p_d_at)),
      (''typo PR'', of_int (typo_pr score * p_t_at)),
      (''feat/bug issue'', of_int (feat_bug_is score * i_fb_at)),
      (''document issue'', of_int (doc_is score * i_d_at)),
      (''total'', of_int total')]"

section \<open>One iteration of the loop of \<^verbatim>\<open>calculate_scores\<close>\<close>

text \<open>
  The body of \<^verbatim>\<open>for participant, activities in self.participants.items()\<close>, as a
  function of \<^verbatim>\<open>activities\<close>. It returns the local variables as they are when the
  iteration ends: the valid counts, the attributed counts, \<^verbatim>\<open>total\<close>, and the
  dictionary stored in \<^verbatim>\<open>scores[participant]\<close>. The first branch is the one that ends
  with \<^verbatim>\<open>continue\<close>.
\<close>

record iteration =
  it_p_valid :: int
  it_i_valid :: int
  it_p_fb_at :: int
  it_p_d_at :: int
  it_p_t_at :: int
  it_i_fb_at :: int
  it_i_d_at :: int
  it_total :: int
  it_stored :: entry

definition loop_body :: "activities \<Rightarrow> iteration" where
  "loop_body activities =
     (case extract_pr_counts activities of (p_f, p_b, p_d, p_t, p_fb) \<Rightarrow>
      case extract_issue_counts activities of (i_f, i_b, i_d, i_fb) \<Rightarrow>
      case calculate_valid_counts p_fb p_d p_t i_fb i_d of (p_valid0, i_valid0) \<Rightarrow>
        if p_fb = 0 \<and> p_d = 0 \<and> p_t = 0 \<and> 0 < i_fb + i_d then
          (let p_valid1 = 1;
               i_valid1 = min (i_fb + i_d) (4 * p_valid1);
               p_fb_at1 = 0;
               p_d_at1 = 0;
               p_t_at1 = (if 0 < p_t then 1 else 0);
               i_fb_at1 = min i_fb i_valid1;
               i_d_at1 = i_valid1 - i_fb_at1;
               total1 = feat_bug_is score * i_fb_at1 +
                        doc_is score * i_d_at1 +
                        typo_pr score * p_t_at1
           in \<lparr>it_p_valid = p_valid1, it_i_valid = i_valid1,
               it_p_fb_at = p_fb_at1, it_p_d_at = p_d_at1, it_p_t_at = p_t_at1,
               it_i_fb_at = i_fb_at1, it_i_d_at = i_d_at1, it_total = total1,
               it_stored =
                 [(''feat/bug PR'', 0),
                  (''document PR'', 0),
                  (''typo PR'', 0),
                  (''feat/bug issue'', of_int (feat_bug_is score * i_fb_at1)),
                  (''document issue'', of_int (doc_is score * i_d_at1)),
                  (''total'', of_int total1)]\<rparr>)
        else
          (case calculate_adjusted_counts p_fb p_d p_valid0 i_fb i_valid0 of
             (p_fb_at2, p_d_at2, p_t_at2, i_fb_at2, i_d_at2) \<Rightarrow>
               let total2 = calculate_total_score p_fb_at2 p_d_at2 p_t_at2 i_fb_at2 i_d_at2
               in \<lparr>it_p_valid = p_valid0, it_i_valid = i_valid0,
                   it_p_fb_at = p_fb_at2, it_p_d_at = p_d_at2, it_p_t_at = p_t_at2,
                   it_i_fb_at = i_fb_at2, it_i_d_at = i_d_at2, it_total = total2,
                   it_stored = create_score_dict p_fb_at2 p_d_at2 p_t_at2 i_fb_at2 i_d_at2 total2\<rparr>))"

fun score_loop ::
  "(string \<times> activities) list \<Rightarrow> (string, entry) dict \<Rightarrow> int \<Rightarrow> (string, entry) dict \<times> int" where
  "score_loop [] scores total_score_sum = (scores, total_score_sum)"
| "score_loop ((participant, activities) # rest) scores total_score_sum =
     (let it = loop_body activities
      in score_loop rest (setitem scores participant (it_stored it)) (total_score_sum + it_total it))"

section \<open>\<^verbatim>\<open>_finalize_scores\<close>\<close>

text \<open>The first loop: every entry gets its \<^verbatim>\<open>"rate"\<close>.\<close>

fun rate_loop :: "(string \<times> entry) list \<Rightarrow> rat \<Rightarrow> py_error + (string, entry) dict" where
  "rate_loop [] total_score_sum = Inr []"
| "rate_loop ((participant, data) # rest) total_score_sum =
     (case getitem data ''total'' of
        Inl e \<Rightarrow> Inl e
      | Inr total' \<Rightarrow>
          (let rate = (if 0 < total_score_sum
                       then float_mul (float_truediv total' total_score_sum) 100
                       else 0)
           in case rate_loop rest total_score_sum of
                Inl e \<Rightarrow> Inl e
              | Inr rest' \<Rightarrow> Inr ((participant, setitem data ''rate'' (py_round rate 1)) # rest')))"

text \<open>The second loop: the keys are replaced by display names.\<close>

fun relabel_loop ::
  "(string \<times> entry) list \<Rightarrow> (string, string) dict \<Rightarrow> (string, entry) dict \<Rightarrow> (string, entry) dict" where
  "relabel_loop [] user_info new_scores = new_scores"
| "relabel_loop ((k, data) # rest) user_info new_scores =
     (let display_name = dict_get user_info k k
      in relabel_loop rest user_info (setitem new_scores display_name data))"

text \<open>
  \<^verbatim>\<open>sorted(scores.items(), key=lambda x: x[1]["total"], reverse=True)\<close>: the keys are
  computed first, one per item and in order; the sort is stable, also with
  \<^verbatim>\<open>reverse=True\<close>, so it is the stable sort by the negated key.
\<close>

fun sort_keys :: "(string \<times> entry) list \<Rightarrow> py_error + (rat \<times> string \<times> entry) list" where
  "sort_keys [] = Inr []"
| "sort_keys ((user, data) # rest) =
     (case getitem data ''total'' of
        Inl e \<Rightarrow> Inl e
      | Inr k \<Rightarrow>
          (case sort_keys rest of
             Inl e \<Rightarrow> Inl e
           | Inr rest' \<Rightarrow> Inr ((k, user, data) # rest')))"

definition sorted_items :: "(string, entry) dict \<Rightarrow> py_error + (string \<times> entry) list" where
  "sorted_items scores =
     (case sort_keys scores of
        Inl e \<Rightarrow> Inl e
      | Inr keyed \<Rightarrow> Inr (map snd (sort_key (\<lambda>x. - fst x) keyed)))"

text \<open>The third loop: ranks, with ties sharing a rank.\<close>

fun rank_loop ::
  "(string \<times> entry) list \<Rightarrow> rat option \<Rightarrow> nat \<Rightarrow> nat \<Rightarrow> (string, entry) dict
     \<Rightarrow> py_error + (string, entry) dict" where
  "rank_loop [] last_score current_rank rank_counter ranked_scores = Inr ranked_scores"
| "rank_loop ((user, data) # rest) last_score current_rank rank_counter ranked_scores =
     (let rank_counter' = rank_counter + 1
      in case getitem data ''total'' of
           Inl e \<Rightarrow> Inl e
         | Inr t \<Rightarrow>
             (let current_rank' = (if Some t \<noteq> last_score then rank_counter' else current_rank);
                  last_score' = (if Some t \<noteq> last_score then Some t else last_score);
                  data' = setitem data ''rank'' (of_nat current_rank')
              in rank_loop rest last_score' current_rank' rank_counter'
                   (setitem ranked_scores user data')))"

definition finalize_scores ::
  "(string, entry) dict \<Rightarrow> rat \<Rightarrow> (string, string) dict option \<Rightarrow> py_error + (string, entry) dict" where
  "finalize_scores scores total_score_sum user_info =
     (case rate_loop scores total_score_sum of
        Inl e \<Rightarrow> Inl e
      | Inr scores1 \<Rightarrow>
          (let scores2 = (case user_info of
                            None \<Rightarrow> scores1
                          | Some ui \<Rightarrow> if ui \<noteq> [] then relabel_loop scores1 ui [] else scores1)
           in case sorted_items scores2 of
                Inl e \<Rightarrow> Inl e
              | Inr items \<Rightarrow> rank_loop items None 0 0 []))"

section \<open>\<^verbatim>\<open>calculate_scores\<close>\<close>

text \<open>
  The dictionary comprehension
  \<^verbatim>\<open>{user: s for user, s in scores.items() if s["total"] >= min_contributions}\<close>.
\<close>

fun filter_min :: "(string \<times> entry) list \<Rightarrow> int \<Rightarrow> py_error + (string, entry) dict" where
  "filter_min [] min_contributions = Inr []"
| "filter_min ((user, s) # rest) min_contributions =
     (case getitem s ''total'' of
        Inl e \<Rightarrow> Inl e
      | Inr t \<Rightarrow>
          (case filter_min rest min_contributions of
             Inl e \<Rightarrow> Inl e
           | Inr rest' \<Rightarrow>
               Inr (if of_int min_contributions \<le> t then (user, s) # rest' else rest')))"

definition calculate_scores ::
  "(string, activities) dict \<Rightarrow> (string, string) dict option \<Rightarrow> int
     \<Rightarrow> py_error + (string, entry) dict" where
  "calculate_scores participants user_info min_contributions =
     (case score_loop participants [] 0 of
        (scores, total_score_sum) \<Rightarrow>
          (case (if 0 < min_contributions then filter_min scores min_contributions
                 else Inr scores) of
             Inl e \<Rightarrow> Inl e
           | Inr scores' \<Rightarrow> finalize_scores scores' (of_int total_score_sum) user_info))"

section \<open>\<^verbatim>\<open>calculate_averages\<close>\<close>

text \<open>
  The sums and quotients of the loop below are the exact ones.
\<close>

fun add_categories :: "string list \<Rightarrow> entry \<Rightarrow> entry \<Rightarrow> py_error + entry" where
  "add_categories [] score_data totals = Inr totals"
| "add_categories (category # rest) score_data totals =
     (case getitem totals category of
        Inl e \<Rightarrow> Inl e
      | Inr acc \<Rightarrow>
          (case getitem score_data category of
             Inl e \<Rightarrow> Inl e
           | Inr v \<Rightarrow> add_categories rest score_data (setitem totals category (acc + v))))"

fun totals_loop :: "(string \<times> entry) list \<Rightarrow> entry \<Rightarrow> py_error + entry" where
  "totals_loop [] totals = Inr totals"
| "totals_loop ((participant, score_data) # rest) totals =
     (case add_categories (map fst totals) score_data totals of
        Inl e \<Rightarrow> Inl e
      | Inr totals' \<Rightarrow> totals_loop rest totals')"

fun sum_rates :: "(string \<times> entry) list \<Rightarrow> py_error + rat" where
  "sum_rates [] = Inr 0"
| "sum_rates ((participant, score_data) # rest) =
     (case getitem score_data ''rate'' of
        Inl e \<Rightarrow> Inl e
      | Inr r \<Rightarrow>
          (case sum_rates rest of
             Inl e \<Rightarrow> Inl e
           | Inr s \<Rightarrow> Inr (r + s)))"

definition calculate_averages :: "(string, entry) dict \<Rightarrow> py_error + entry" where
  "calculate_averages scores =
     (if scores = [] then
        Inr [(''feat/bug PR'', 0), (''document PR'', 0), (''typo PR'', 0),
             (''feat/bug issue'', 0), (''document issue'', 0), (''total'', 0), (''rate'', 0)]
      else
        (let num_participants = length scores;
             totals = [(''feat/bug PR'', 0), (''document PR'', 0), (''typo PR'', 0),
                       (''feat/bug issue'', 0), (''document issue'', 0), (''total'', 0)]
         in case totals_loop scores totals of
              Inl e \<Rightarrow> Inl e
            | Inr totals' \<Rightarrow>
                (let averages = map (\<lambda>(category, total'). (category, total' / of_nat num_participants)) totals'
                 in case sum_rates scores of
                      Inl e \<Rightarrow> Inl e
                    | Inr total_rates \<Rightarrow>
                        Inr (setitem averages ''rate''
                               (if 0 < num_participants then total_rates / of_nat num_participants
                                else 0)))))"

section \<open>Reading a result\<close>

text \<open>
  The statements below read the returned dictionaries with these functions.
  \<open>total_of\<close>, \<open>rank_of\<close> and \<open>rate_of\<close> are \<^verbatim>\<open>e.get(key, 0)\<close> for the
  three keys; each theorem that uses one of them also shows that \<^const>\<open>getitem\<close> finds the
  key. \<open>rates_sum\<close> and \<open>totals_sum\<close> add the rates and the totals of all entries,
  exactly. \<open>display_name\<close> is the key under which \<^verbatim>\<open>_finalize_scores\<close> files a
  participant: \<^verbatim>\<open>user_info.get(k, k)\<close>, or \<^verbatim>\<open>k\<close> itself without \<^verbatim>\<open>user_info\<close>.
\<close>

definition total_of :: "entry \<Rightarrow> rat" where
  "total_of e = dict_get e ''total'' 0"

definition rank_of :: "entry \<Rightarrow> rat" where
  "rank_of e = dict_get e ''rank'' 0"

definition rate_of :: "entry \<Rightarrow> rat" where
  "rate_of e = dict_get e ''rate'' 0"

definition rates_sum :: "(string, entry) dict \<Rightarrow> rat" where
  "rates_sum r = sum_list (map rate_of (map snd r))"

definition totals_sum :: "(string, entry) dict \<Rightarrow> rat" where
  "totals_sum r = sum_list (map total_of (map snd r))"

definition display_name :: "(string, string) dict option \<Rightarrow> string \<Rightarrow> string" where
  "display_name user_info k = (case user_info of None \<Rightarrow> k | Some ui \<Rightarrow> dict_get ui k k)"

section \<open>The stages of the computation\<close>

text \<open>
  The stages of \<^const>\<open>calculate_scores\<close> on a dictionary whose entries all have a
  \<^verbatim>\<open>"total"\<close>, where no lookup can fail: the entry stored for a participant, the
  participants that pass the threshold, the rate of an entry, the relabelling, the
  descending stable sort, and the rank of an entry as one more than the number of items
  with a strictly greater total. The lemmas of the next sections show that the loops of
  the source compute exactly these.
\<close>

definition has_total :: "entry \<Rightarrow> bool" where
  "has_total e = (map_of e ''total'' \<noteq> None)"

definition stored_item :: "string \<times> activities \<Rightarrow> string \<times> entry" where
  "stored_item p = (fst p, it_stored (loop_body (snd p)))"

definition processed :: "int \<Rightarrow> (string, activities) dict \<Rightarrow> (string, activities) dict" where
  "processed min_contributions participants =
     filter (\<lambda>p. min_contributions \<le> 0 \<or> min_contributions \<le> it_total (loop_body (snd p)))
       participants"

definition kept :: "int \<Rightarrow> (string, entry) dict \<Rightarrow> (string, entry) dict" where
  "kept min_contributions scores =
     (if 0 < min_contributions
      then filter (\<lambda>p. of_int min_contributions \<le> total_of (snd p)) scores
      else scores)"

definition rate_value :: "rat \<Rightarrow> rat \<Rightarrow> rat" where
  "rate_value total_score_sum t =
     py_round (if 0 < total_score_sum
               then float_mul (float_truediv t total_score_sum) 100
               else 0) 1"

definition with_rate :: "rat \<Rightarrow> string \<times> entry \<Rightarrow> string \<times> entry" where
  "with_rate total_score_sum p =
     (fst p, setitem (snd p) ''rate'' (rate_value total_score_sum (total_of (snd p))))"

definition relabelled :: "(string, string) dict option \<Rightarrow> (string, entry) dict \<Rightarrow> (string, entry) dict" where
  "relabelled user_info scores =
     (case user_info of
        None \<Rightarrow> scores
      | Some ui \<Rightarrow> if ui \<noteq> [] then relabel_loop scores ui [] else scores)"

definition sorted_desc :: "(string, entry) dict \<Rightarrow> (string \<times> entry) list" where
  "sorted_desc scores = sort_key (\<lambda>p. - total_of (snd p)) scores"

definition competition_rank :: "(string \<times> entry) list \<Rightarrow> rat \<Rightarrow> nat" where
  "competition_rank items t = Suc (length (filter (\<lambda>p. t < total_of (snd p)) items))"

definition with_rank :: "(string \<times> entry) list \<Rightarrow> string \<times> entry \<Rightarrow> string \<times> entry" where
  "with_rank items p =
     (fst p, setitem (snd p) ''rank'' (of_nat (competition_rank items (total_of (snd p)))))"

definition ranked :: "(string \<times> entry) list \<Rightarrow> (string, entry) dict" where
  "ranked items = map (with_rank items) items"

text \<open>
  Four participants used as a running example: one with two feature pull requests
  (total 6), two with issues only (total 4 each), one with a single documentation issue
  (total 1). Their rates are the doubles 40.0, 26.7, 26.7 and 6.7.
\<close>

definition example_participants :: "(string, activities) dict" where
  "example_participants =
     [(''alice'', [(''p_enhancement'', 2)]),
      (''bob'', [(''i_enhancement'', 2)]),
      (''carol'', [(''i_enhancement'', 1), (''i_documentation'', 2)]),
      (''dave'', [(''i_documentation'', 1)])]"

section \<open>Floats\<close>

text \<open>
  The double nearest to \<open>x\<close> differs from \<open>x\<close> by at most half a unit in the last
  place. For a total between 0 and the grand total, the rate that lines 337 and 338
  compute with three roundings to double and one to a tenth is within 0.06 of the exact
  percentage.
\<close>

lemma round_half_even_error: "\<bar>rat_of_int (round_half_even y) - y\<bar> \<le> 1 / 2"
proof -
  define f where "f = \<lfloor>y\<rfloor>"
  have lo: "of_int f \<le> y" and hi: "y < of_int f + 1" unfolding f_def by linarith+
  have n: "round_half_even y = (if y - of_int f < 1 / 2 then f else if 1 / 2 < y - of_int f then f + 1
               else if even f then f else f + 1)"
    by (simp add: round_half_even_def Let_def f_def)
  show ?thesis
  proof (cases "y - of_int f < 1 / 2")
    case True
    then have "round_half_even y = f" by (simp add: n)
    with lo True show ?thesis by simp
  next
    case False
    show ?thesis
    proof (cases "1 / 2 < y - of_int f")
      case True
      with False have "round_half_even y = f + 1" by (simp add: n)
      with hi True show ?thesis by simp
    next
      case half: False
      with False have eq: "y - of_int f = 1 / 2" by simp
      have "round_half_even y = f \<or> round_half_even y = f + 1" using False half by (simp add: n)
      with eq show ?thesis by auto
    qed
  qed
qed

lemma float_exponent_bounds:
  assumes "x \<noteq> 0"
  shows "2 powi (float_exponent x) \<le> \<bar>x\<bar>" and "\<bar>x\<bar> < 2 powi (float_exponent x + 1)"
proof -
  obtain a b where q: "quotient_of \<bar>x\<bar> = (a, b)" by (cases "quotient_of \<bar>x\<bar>")
  then have b: "0 < b" by (rule quotient_of_denom_pos)
  from q have x: "\<bar>x\<bar> = of_int a / of_int b" by (rule quotient_of_div)
  from assms have "0 < \<bar>x\<bar>" by simp
  with x b have a: "0 < a" by (simp add: zero_less_divide_iff)
  define k where "k = bitlen a - bitlen b"
  have e: "float_exponent x = (if 2 powi k \<le> \<bar>x\<bar> then k else k - 1)"
    by (simp add: float_exponent_def q k_def Let_def)
  from bitlen_bounds [OF a] have a1: "2 ^ nat (bitlen a - 1) \<le> a" and a2: "a < 2 ^ nat (bitlen a)"
    by simp_all
  from bitlen_bounds [OF b] have b1: "2 ^ nat (bitlen b - 1) \<le> b" and b2: "b < 2 ^ nat (bitlen b)"
    by simp_all
  have la: "1 \<le> bitlen a" using a by (simp add: bitlen_alt_def)
  have lb: "1 \<le> bitlen b" using b by (simp add: bitlen_alt_def)
  have ra1: "(2::rat) powi (bitlen a - 1) \<le> of_int a"
  proof -
    have "rat_of_int (2 ^ nat (bitlen a - 1)) \<le> of_int a" using a1 by (simp only: of_int_le_iff)
    then show ?thesis using la by (simp add: power_int_nonneg_exp)
  qed
  have ra2: "of_int a < (2::rat) powi (bitlen a)"
  proof -
    have "rat_of_int a < of_int (2 ^ nat (bitlen a))" using a2 by (simp only: of_int_less_iff)
    then show ?thesis using la by (simp add: power_int_nonneg_exp)
  qed
  have rb1: "(2::rat) powi (bitlen b - 1) \<le> of_int b"
  proof -
    have "rat_of_int (2 ^ nat (bitlen b - 1)) \<le> of_int b" using b1 by (simp only: of_int_le_iff)
    then show ?thesis using lb by (simp add: power_int_nonneg_exp)
  qed
  have rb2: "of_int b < (2::rat) powi (bitlen b)"
  proof -
    have "rat_of_int b < of_int (2 ^ nat (bitlen b))" using b2 by (simp only: of_int_less_iff)
    then show ?thesis using lb by (simp add: power_int_nonneg_exp)
  qed
  have posb: "(0::rat) < of_int b" using b by simp
  have low: "(2::rat) powi (k - 1) \<le> \<bar>x\<bar>"
  proof -
    have "(2::rat) powi (k - 1) = 2 powi (bitlen a - 1) / 2 powi (bitlen b)"
      by (simp add: k_def power_int_diff)
    also have "\<dots> \<le> of_int a / 2 powi (bitlen b)"
      using ra1 by (simp add: divide_right_mono)
    also have "\<dots> \<le> of_int a / of_int b"
      using rb2 posb a by (simp add: frac_le)
    finally show ?thesis by (simp add: x)
  qed
  have up: "\<bar>x\<bar> < (2::rat) powi (k + 1)"
  proof -
    have "of_int a / of_int b < (2::rat) powi (bitlen a) / of_int b"
      using ra2 posb by (simp add: divide_strict_right_mono)
    also have "\<dots> \<le> 2 powi (bitlen a) / 2 powi (bitlen b - 1)"
      using rb1 by (simp add: frac_le)
    also have "\<dots> = 2 powi (bitlen a - (bitlen b - 1))"
      by (rule power_int_diff [symmetric]) simp
    also have "bitlen a - (bitlen b - 1) = k + 1"
      by (simp add: k_def)
    finally show ?thesis by (simp add: x)
  qed
  show "2 powi (float_exponent x) \<le> \<bar>x\<bar>" using low by (simp add: e)
  show "\<bar>x\<bar> < 2 powi (float_exponent x + 1)" using up by (auto simp: e)
qed

lemma nearest_double_error: "\<bar>nearest_double x - x\<bar> \<le> (\<bar>x\<bar> + 1) / 2 ^ 53"
proof (cases "x = 0")
  case True
  then show ?thesis by (simp add: nearest_double_def)
next
  case False
  define e where "e = max (float_exponent x) (- 1022)"
  define ulp :: rat where "ulp = 2 powi (e - 52)"
  have pos: "0 < ulp" by (simp add: ulp_def)
  have nd: "nearest_double x = of_int (round_half_even (x / ulp)) * ulp"
    using False by (simp add: nearest_double_def Let_def e_def ulp_def)
  have "nearest_double x - x = (of_int (round_half_even (x / ulp)) - x / ulp) * ulp"
    using pos by (simp add: nd algebra_simps)
  then have "\<bar>nearest_double x - x\<bar> = \<bar>of_int (round_half_even (x / ulp)) - x / ulp\<bar> * ulp"
    using pos by (simp add: abs_mult)
  also have "\<dots> \<le> (1 / 2) * ulp"
    using round_half_even_error [of "x / ulp"] pos by (simp add: mult_right_mono)
  also have "\<dots> = 2 powi e / 2 ^ 53"
    by (simp add: ulp_def power_int_diff)
  also have "\<dots> \<le> (\<bar>x\<bar> + 1) / 2 ^ 53"
  proof -
    have "(2::rat) powi e \<le> \<bar>x\<bar> + 1"
    proof (cases "float_exponent x \<le> - 1022")
      case True
      then have "e = - 1022" by (simp add: e_def)
      then have "(2::rat) powi e \<le> 2 powi 0"
        by (simp only:) (rule power_int_increasing, simp_all)
      then show ?thesis by simp
    next
      case False
      then have "e = float_exponent x" by (simp add: e_def)
      with float_exponent_bounds(1) [OF \<open>x \<noteq> 0\<close>] show ?thesis by simp
    qed
    then show ?thesis by (simp add: divide_right_mono)
  qed
  finally show ?thesis .
qed

lemma rate_error:
  assumes "0 \<le> t" and "t \<le> T" and "0 < T"
  shows "\<bar>py_round (float_mul (float_truediv t T) 100) 1 - t / T * 100\<bar> \<le> 3 / 50"
proof -
  define y where "y = t / T"
  define q where "q = nearest_double y"
  define r where "r = nearest_double (q * 100)"
  define d where "d = rat_of_int (round_half_even (r * 10)) / 10"
  define s where "s = nearest_double d"
  define c :: rat where "c = 1 / 2 ^ 53"
  have y: "0 \<le> y" "y \<le> 1" using assms by (simp_all add: y_def)
  have eq: "\<bar>q - y\<bar> \<le> (\<bar>y\<bar> + 1) * c"
    using nearest_double_error [of y] by (simp add: q_def c_def)
  have er: "\<bar>r - q * 100\<bar> \<le> (\<bar>q * 100\<bar> + 1) * c"
    using nearest_double_error [of "q * 100"] by (simp add: r_def c_def)
  have "\<bar>rat_of_int (round_half_even (r * 10)) - r * 10\<bar> \<le> 1 / 2"
    by (rule round_half_even_error)
  then have ed: "\<bar>d - r\<bar> \<le> 1 / 20"
    by (simp add: d_def abs_if split: if_splits)
  have es: "\<bar>s - d\<bar> \<le> (\<bar>d\<bar> + 1) * c"
    using nearest_double_error [of d] by (simp add: s_def c_def)
  have c: "c = 1 / 9007199254740992" by (simp add: c_def)
  have q: "\<bar>q\<bar> \<le> 2" using eq y by (simp add: c abs_if split: if_splits)
  have q100: "\<bar>q * 100 - y * 100\<bar> \<le> 200 * c"
    using eq y by (simp add: c abs_if split: if_splits)
  have r: "\<bar>r - y * 100\<bar> \<le> 401 * c"
    using er q q100 by (simp add: c abs_if split: if_splits)
  have rb: "\<bar>r\<bar> \<le> 101" using r y by (simp add: c abs_if split: if_splits)
  have db: "\<bar>d\<bar> \<le> 102" using ed rb by (simp add: abs_if split: if_splits)
  have "\<bar>s - y * 100\<bar> \<le> 1 / 20 + 504 * c"
    using es ed r db by (simp add: c abs_if split: if_splits)
  then have "\<bar>s - y * 100\<bar> \<le> 3 / 50" by (simp add: c)
  moreover have "py_round (float_mul (float_truediv t T) 100) 1 = s"
    by (simp add: py_round_def float_mul_def float_truediv_def s_def d_def r_def q_def y_def)
  ultimately show ?thesis by (simp add: y_def)
qed

section \<open>Dictionaries\<close>

lemma setitem_new: "k \<notin> fst ` set d \<Longrightarrow> setitem d k v = d @ [(k, v)]"
  unfolding setitem_def by (induction d) auto

lemma distinct_setitem: "distinct (map fst d) \<Longrightarrow> distinct (map fst (setitem d k v))"
  unfolding setitem_def by (rule distinct_update)

lemma keys_setitem: "fst ` set (setitem d k v) = insert k (fst ` set d)"
  unfolding setitem_def by (simp add: dom_update)

lemma map_of_setitem: "map_of (setitem d k v) = (map_of d)(k \<mapsto> v)"
  unfolding setitem_def by (rule update_conv')

lemma set_setitem_subset: "set (setitem d k v) \<subseteq> insert (k, v) (set d)"
  unfolding setitem_def by (induction d) auto

lemma getitem_total: "has_total e \<Longrightarrow> getitem e ''total'' = Inr (total_of e)"
  by (auto simp: has_total_def getitem_def total_of_def dict_get_def)

lemma total_of_setitem: "k \<noteq> ''total'' \<Longrightarrow> total_of (setitem e k v) = total_of e"
  by (simp add: total_of_def dict_get_def map_of_setitem)

lemma has_total_setitem: "has_total e \<Longrightarrow> has_total (setitem e k v)"
  by (simp add: has_total_def map_of_setitem)

lemma one_entry_per_key:
  "distinct (map fst xs) \<Longrightarrow> (k, v) \<in> set xs \<Longrightarrow> length (filter (\<lambda>p. fst p = k) xs) = 1"
proof (induction xs)
  case Nil
  then show ?case by simp
next
  case (Cons x xs)
  show ?case
  proof (cases "fst x = k")
    case True
    from Cons.prems(1) have "fst x \<notin> fst ` set xs" by simp
    with True have "\<forall>p\<in>set xs. fst p \<noteq> k" by (metis imageI)
    then have "filter (\<lambda>p. fst p = k) xs = []" by (simp add: filter_empty_conv)
    with True show ?thesis by simp
  next
    case False
    with Cons.prems have "(k, v) \<in> set xs" "distinct (map fst xs)" by auto
    with Cons.IH False show ?thesis by simp
  qed
qed

lemma filter_own_key:
  "distinct (map fst xs) \<Longrightarrow> p \<in> set xs \<Longrightarrow> filter (\<lambda>q. fst q = fst p) xs = [p]"
proof (induction xs)
  case Nil
  then show ?case by simp
next
  case (Cons x xs)
  from Cons.prems(1) have new: "fst x \<notin> fst ` set xs" and d: "distinct (map fst xs)" by simp_all
  show ?case
  proof (cases "p = x")
    case True
    from new have "\<forall>q\<in>set xs. fst q \<noteq> fst x" by (metis imageI)
    then have "filter (\<lambda>q. fst q = fst x) xs = []" by (simp add: filter_empty_conv)
    with True show ?thesis by simp
  next
    case False
    with Cons.prems(2) have p: "p \<in> set xs" by simp
    with new have "fst x \<noteq> fst p" by (metis imageI)
    with Cons.IH [OF d p] show ?thesis by simp
  qed
qed

lemma map_of_rev_distinct:
  "distinct (map fst xs) \<Longrightarrow> map_of (rev xs) k = map_of xs k"
proof (induction xs)
  case Nil
  then show ?case by simp
next
  case (Cons x xs)
  then have new: "fst x \<notin> fst ` set xs" and IH: "map_of (rev xs) k = map_of xs k" by simp_all
  show ?case
  proof (cases "k = fst x")
    case True
    with new have "map_of (rev xs) k = None"
      by (simp add: map_of_eq_None_iff)
    with True show ?thesis by (simp add: map_add_def)
  next
    case False
    with IH show ?thesis by (simp add: map_add_def split: option.splits)
  qed
qed

section \<open>The scoring loop\<close>

lemma has_total_stored: "has_total (it_stored (loop_body a))"
  by (simp add: loop_body_def has_total_def create_score_dict_def Let_def split: prod.splits)

lemma total_of_stored: "total_of (it_stored (loop_body a)) = of_int (it_total (loop_body a))"
  by (simp add: loop_body_def total_of_def dict_get_def create_score_dict_def Let_def
      split: prod.splits)

lemma score_loop_invariant:
  assumes "score_loop ps acc s = (scores, T)"
    and "distinct (map fst acc)"
    and "list_all (\<lambda>p. has_total (snd p)) acc"
  shows "distinct (map fst scores) \<and> list_all (\<lambda>p. has_total (snd p)) scores"
  using assms
proof (induction ps arbitrary: acc s)
  case Nil
  then show ?case by simp
next
  case (Cons p ps)
  obtain u a where p: "p = (u, a)" by (cases p)
  let ?acc = "setitem acc u (it_stored (loop_body a))"
  have 1: "distinct (map fst ?acc)" using Cons.prems(2) by (rule distinct_setitem)
  have "set ?acc \<subseteq> insert (u, it_stored (loop_body a)) (set acc)"
    by (rule set_setitem_subset)
  with Cons.prems(3) have 2: "list_all (\<lambda>p. has_total (snd p)) ?acc"
    by (auto simp: list_all_iff has_total_stored)
  from Cons.prems(1) have "score_loop ps ?acc (s + it_total (loop_body a)) = (scores, T)"
    by (simp add: p Let_def)
  from Cons.IH [OF this 1 2] show ?case .
qed

lemma score_loop_eq:
  "distinct (map fst acc @ map fst ps) \<Longrightarrow>
   score_loop ps acc s =
     (acc @ map (\<lambda>p. (fst p, it_stored (loop_body (snd p)))) ps,
      s + (\<Sum>p\<leftarrow>ps. it_total (loop_body (snd p))))"
proof (induction ps arbitrary: acc s)
  case Nil
  then show ?case by simp
next
  case (Cons p ps)
  obtain u a where p: "p = (u, a)" by (cases p)
  from Cons.prems have new: "u \<notin> fst ` set acc" by (auto simp: p)
  have acc: "setitem acc u (it_stored (loop_body a)) = acc @ [(u, it_stored (loop_body a))]"
    using new by (rule setitem_new)
  from Cons.prems have "distinct (map fst (acc @ [(u, it_stored (loop_body a))]) @ map fst ps)"
    by (auto simp: p)
  from Cons.IH [OF this] show ?case
    by (simp add: p Let_def acc add.assoc)
qed

lemma score_loop_distinct:
  "distinct (map fst ps) \<Longrightarrow>
   score_loop ps [] 0 = (map stored_item ps, \<Sum>p\<leftarrow>ps. it_total (loop_body (snd p)))"
  using score_loop_eq [of "[]" ps 0] by (simp add: stored_item_def [abs_def])

lemma score_loop_entries:
  "e \<in> set (fst (score_loop ps acc s)) \<Longrightarrow>
   e \<in> set acc \<or> (\<exists>p\<in>set ps. snd e = it_stored (loop_body (snd p)))"
proof (induction ps arbitrary: acc s)
  case Nil
  then show ?case by simp
next
  case (Cons x ps)
  obtain u a where x: "x = (u, a)" by (cases x)
  from Cons.prems have "e \<in> set (fst (score_loop ps (setitem acc u (it_stored (loop_body a)))
      (s + it_total (loop_body a))))"
    by (simp add: x Let_def)
  from Cons.IH [OF this] set_setitem_subset [of acc u "it_stored (loop_body a)"]
  show ?case by (auto simp: x)
qed

lemma score_loop_sum:
  "snd (score_loop ps acc s) = s + (\<Sum>p\<leftarrow>ps. it_total (loop_body (snd p)))"
  by (induction ps arbitrary: acc s) (auto simp: Let_def)

lemma dict_get_nonneg:
  "\<forall>c\<in>set a. 0 \<le> snd c \<Longrightarrow> (0::int) \<le> dict_get a k 0"
  by (auto simp: dict_get_def split: option.splits dest!: map_of_SomeD)

lemma total_nonneg:
  assumes "\<forall>c\<in>set a. 0 \<le> snd c"
  shows "0 \<le> it_total (loop_body a)"
proof -
  have nn: "0 \<le> dict_get a k 0" for k using assms by (rule dict_get_nonneg)
  obtain p_f p_b p_d p_t p_fb where pr: "extract_pr_counts a = (p_f, p_b, p_d, p_t, p_fb)"
    by (cases "extract_pr_counts a")
  obtain i_f i_b i_d i_fb where iss: "extract_issue_counts a = (i_f, i_b, i_d, i_fb)"
    by (cases "extract_issue_counts a")
  have "0 \<le> p_fb \<and> 0 \<le> p_d \<and> 0 \<le> p_t"
    using pr nn [of "''p_enhancement''"] nn [of "''p_bug''"] nn [of "''p_documentation''"]
      nn [of "''p_typo''"]
    by (auto simp: extract_pr_counts_def Let_def)
  moreover have "0 \<le> i_fb \<and> 0 \<le> i_d"
    using iss nn [of "''i_enhancement''"] nn [of "''i_bug''"] nn [of "''i_documentation''"]
    by (auto simp: extract_issue_counts_def Let_def)
  ultimately show ?thesis
    by (auto simp: loop_body_def pr iss Let_def score_def SCORE_WEIGHTS_def
        calculate_valid_counts_def calculate_adjusted_counts_def calculate_total_score_def)
qed

section \<open>The filter and the rates\<close>

lemma filter_min_eq:
  "list_all (\<lambda>p. has_total (snd p)) xs \<Longrightarrow>
   filter_min xs mc = Inr (filter (\<lambda>p. of_int mc \<le> total_of (snd p)) xs)"
  by (induction xs) (auto simp: getitem_total)

lemma rate_loop_eq:
  "list_all (\<lambda>p. has_total (snd p)) xs \<Longrightarrow> rate_loop xs T = Inr (map (with_rate T) xs)"
  by (induction xs) (auto simp: getitem_total with_rate_def rate_value_def Let_def)

lemma fst_with_rate: "fst (with_rate T p) = fst p"
  by (simp add: with_rate_def)

lemma total_of_with_rate: "total_of (snd (with_rate T p)) = total_of (snd p)"
  by (simp add: with_rate_def total_of_setitem)

lemma has_total_with_rate: "has_total (snd p) \<Longrightarrow> has_total (snd (with_rate T p))"
  by (simp add: with_rate_def has_total_setitem)

lemma rate_of_with_rate:
  "rate_of (snd (with_rate T p)) = rate_value T (total_of (snd p))"
  by (simp add: with_rate_def rate_of_def dict_get_def map_of_setitem)

section \<open>Relabelling\<close>

lemma relabel_distinct:
  "distinct (map fst acc) \<Longrightarrow> distinct (map fst (relabel_loop xs ui acc))"
  by (induction xs arbitrary: acc) (auto simp: Let_def distinct_setitem)

lemma relabel_keys:
  "fst ` set (relabel_loop xs ui acc) = fst ` set acc \<union> (\<lambda>k. dict_get ui k k) ` fst ` set xs"
proof (induction xs arbitrary: acc)
  case Nil
  then show ?case by simp
next
  case (Cons x xs)
  obtain k e where x: "x = (k, e)" by (cases x)
  have "fst ` set (relabel_loop (x # xs) ui acc) =
          fst ` set (setitem acc (dict_get ui k k) e) \<union> (\<lambda>k. dict_get ui k k) ` fst ` set xs"
    by (simp add: x Let_def Cons.IH)
  also have "\<dots> = fst ` set acc \<union> (\<lambda>k. dict_get ui k k) ` fst ` set (x # xs)"
    by (auto simp: keys_setitem x)
  finally show ?case .
qed

lemma relabel_set:
  "set (relabel_loop xs ui acc) \<subseteq> set acc \<union> (\<lambda>p. (dict_get ui (fst p) (fst p), snd p)) ` set xs"
proof (induction xs arbitrary: acc)
  case Nil
  then show ?case by simp
next
  case (Cons x xs)
  obtain k e where x: "x = (k, e)" by (cases x)
  have "set (setitem acc (dict_get ui k k) e) \<subseteq> insert (dict_get ui k k, e) (set acc)"
    by (rule set_setitem_subset)
  with Cons.IH [of "setitem acc (dict_get ui k k) e"] show ?case
    by (auto simp: x Let_def)
qed

lemma relabel_map_of:
  "map_of (relabel_loop xs ui acc) =
     map_of acc ++ map_of (rev (map (\<lambda>p. (dict_get ui (fst p) (fst p), snd p)) xs))"
proof (induction xs arbitrary: acc)
  case Nil
  then show ?case by simp
next
  case (Cons x xs)
  obtain k e where x: "x = (k, e)" by (cases x)
  show ?case
    by (rule ext)
      (simp add: x Let_def Cons.IH map_of_setitem map_add_def split: option.splits)
qed

lemma map_of_rev_last:
  "map_of (rev (map (\<lambda>p. (d (fst p), snd p)) xs)) D =
     (if filter (\<lambda>p. d (fst p) = D) xs = [] then None
      else Some (snd (last (filter (\<lambda>p. d (fst p) = D) xs))))"
  by (induction xs rule: rev_induct) auto

lemma relabel_inj:
  assumes "distinct (map fst xs)"
    and "inj_on (\<lambda>k. dict_get ui k k) (fst ` set xs)"
    and "(\<lambda>k. dict_get ui k k) ` fst ` set xs \<inter> fst ` set acc = {}"
  shows "relabel_loop xs ui acc = acc @ map (\<lambda>p. (dict_get ui (fst p) (fst p), snd p)) xs"
  using assms
proof (induction xs arbitrary: acc)
  case Nil
  then show ?case by simp
next
  case (Cons x xs)
  obtain k e where x: "x = (k, e)" by (cases x)
  let ?d = "\<lambda>k. dict_get ui k k"
  have new: "?d k \<notin> fst ` set acc" using Cons.prems(3) by (auto simp: x)
  have acc: "setitem acc (?d k) e = acc @ [(?d k, e)]" using new by (rule setitem_new)
  have "?d k \<notin> ?d ` fst ` set xs"
  proof
    assume "?d k \<in> ?d ` fst ` set xs"
    then obtain k' where k': "k' \<in> fst ` set xs" "?d k = ?d k'" by auto
    with Cons.prems(2) have "k = k'" by (auto simp: x inj_on_def)
    with k' Cons.prems(1) show False by (auto simp: x)
  qed
  then have disj: "?d ` fst ` set xs \<inter> fst ` set (acc @ [(?d k, e)]) = {}"
    using Cons.prems(3) by (auto simp: x)
  have "relabel_loop xs ui (acc @ [(?d k, e)]) =
          (acc @ [(?d k, e)]) @ map (\<lambda>p. (?d (fst p), snd p)) xs"
  proof (rule Cons.IH [OF _ _ disj])
    show "distinct (map fst xs)" using Cons.prems(1) by simp
    show "inj_on ?d (fst ` set xs)" using Cons.prems(2) by (auto simp: inj_on_def)
  qed
  then show ?case by (simp add: x Let_def acc)
qed

lemma relabelled_distinct:
  "distinct (map fst xs) \<Longrightarrow> distinct (map fst (relabelled ui xs))"
  by (auto simp: relabelled_def relabel_distinct split: option.splits)

lemma relabelled_set:
  "set (relabelled ui xs) \<subseteq> (\<lambda>p. (display_name ui (fst p), snd p)) ` set xs"
proof (cases ui)
  case None
  then show ?thesis by (auto simp: relabelled_def display_name_def image_iff)
next
  case (Some d)
  show ?thesis
  proof (cases "d = []")
    case True
    with Some show ?thesis
      by (auto simp: relabelled_def display_name_def dict_get_def image_iff)
  next
    case False
    with Some relabel_set [of xs d "[]"] show ?thesis
      by (auto simp: relabelled_def display_name_def)
  qed
qed

lemma relabelled_keys:
  "fst ` set (relabelled ui xs) = display_name ui ` fst ` set xs"
proof (cases ui)
  case None
  then show ?thesis by (simp add: relabelled_def display_name_def)
next
  case (Some d)
  show ?thesis
  proof (cases "d = []")
    case True
    with Some show ?thesis
      by (simp add: relabelled_def display_name_def dict_get_def)
  next
    case False
    with Some relabel_keys [of xs d "[]"] show ?thesis
      by (simp add: relabelled_def display_name_def)
  qed
qed

lemma relabelled_inj:
  assumes "distinct (map fst xs)" and "inj_on (display_name ui) (fst ` set xs)"
  shows "relabelled ui xs = map (\<lambda>p. (display_name ui (fst p), snd p)) xs"
proof (cases ui)
  case None
  then show ?thesis by (simp add: relabelled_def display_name_def)
next
  case (Some d)
  show ?thesis
  proof (cases "d = []")
    case True
    with Some show ?thesis
      by (simp add: relabelled_def display_name_def dict_get_def)
  next
    case False
    have "display_name (Some d) = (\<lambda>k. dict_get d k k)"
      by (rule ext) (simp add: display_name_def)
    with assms(2) Some have "inj_on (\<lambda>k. dict_get d k k) (fst ` set xs)"
      by simp
    from relabel_inj [OF assms(1) this, of "[]"] False Some show ?thesis
      by (simp add: relabelled_def display_name_def)
  qed
qed

lemma relabelled_map_of:
  assumes "distinct (map fst xs)"
  shows "map_of (relabelled ui xs) D =
         map_of (rev (map (\<lambda>p. (display_name ui (fst p), snd p)) xs)) D"
proof (cases ui)
  case None
  then show ?thesis
    using map_of_rev_distinct [OF assms, of D] by (simp add: relabelled_def display_name_def)
next
  case (Some d)
  show ?thesis
  proof (cases "d = []")
    case True
    with Some show ?thesis
      using map_of_rev_distinct [OF assms, of D]
      by (simp add: relabelled_def display_name_def dict_get_def)
  next
    case False
    with Some show ?thesis
      by (simp add: relabelled_def display_name_def relabel_map_of)
  qed
qed

section \<open>Sorting\<close>

lemma sort_keys_eq:
  "list_all (\<lambda>p. has_total (snd p)) xs \<Longrightarrow> sort_keys xs = Inr (map (\<lambda>p. (total_of (snd p), p)) xs)"
  by (induction xs) (auto simp: getitem_total)

lemma insort_key_map:
  "insort_key f (g x) (map g xs) = map g (insort_key (\<lambda>y. f (g y)) x xs)"
  by (induction xs) auto

lemma sort_key_map: "sort_key f (map g xs) = map g (sort_key (\<lambda>y. f (g y)) xs)"
  by (induction xs) (auto simp: insort_key_map)

lemma sorted_items_eq:
  assumes "list_all (\<lambda>p. has_total (snd p)) xs"
  shows "sorted_items xs = Inr (sort_key (\<lambda>p. - total_of (snd p)) xs)"
proof -
  have "map snd (sort_key (\<lambda>x. - fst x) (map (\<lambda>p. (total_of (snd p), p)) xs)) =
        map snd (map (\<lambda>p. (total_of (snd p), p)) (sort_key (\<lambda>p. - total_of (snd p)) xs))"
    by (simp add: sort_key_map)
  also have "\<dots> = sort_key (\<lambda>p. - total_of (snd p)) xs"
    by (simp add: comp_def)
  finally show ?thesis
    by (simp add: sorted_items_def sort_keys_eq [OF assms])
qed

lemma set_sorted_desc: "set (sorted_desc xs) = set xs"
  by (simp add: sorted_desc_def)

lemma distinct_keys_sorted_desc:
  "distinct (map fst xs) \<Longrightarrow> distinct (map fst (sorted_desc xs))"
  by (simp add: sorted_desc_def distinct_map)

lemma sum_list_insort_key:
  "sum_list (map f (insort_key k x xs)) = f x + sum_list (map f (xs :: 'a list))"
  for f :: "'a \<Rightarrow> rat"
  by (induction xs) (auto simp: algebra_simps)

lemma sum_list_sort_key: "sum_list (map f (sort_key k xs)) = sum_list (map f xs)"
  for f :: "'a \<Rightarrow> rat"
  by (induction xs) (auto simp: sum_list_insort_key)

section \<open>Ranks\<close>

lemma sorted_le_last: "sorted ys \<Longrightarrow> y \<in> set ys \<Longrightarrow> (y::'a::linorder) \<le> last ys"
  by (induction ys) (auto split: if_splits)

lemma rank_loop_eq:
  assumes "sorted (map (\<lambda>p. - total_of (snd p)) (pre @ xs))"
    and "list_all (\<lambda>p. has_total (snd p)) xs"
    and "distinct (map fst acc @ map fst xs)"
    and "rank_counter = length pre"
    and "pre = [] \<Longrightarrow> last_score = None"
    and "pre \<noteq> [] \<Longrightarrow> last_score = Some (total_of (snd (last pre))) \<and>
           current_rank = competition_rank (pre @ xs) (total_of (snd (last pre)))"
  shows "rank_loop xs last_score current_rank rank_counter acc =
           Inr (acc @ map (with_rank (pre @ xs)) xs)"
  using assms
proof (induction xs arbitrary: pre acc last_score current_rank rank_counter)
  case Nil
  then show ?case by simp
next
  case (Cons x xs)
  obtain u e where x: "x = (u, e)" by (cases x)
  let ?t = "total_of e"
  let ?items = "pre @ x # xs"
  let ?cr = "if Some ?t \<noteq> last_score then rank_counter + 1 else current_rank"
  let ?ls = "if Some ?t \<noteq> last_score then Some ?t else last_score"
  let ?e' = "setitem e ''rank'' (of_nat ?cr)"
  have tot: "getitem e ''total'' = Inr ?t"
    using Cons.prems(2) by (simp add: x getitem_total)
  have new: "u \<notin> fst ` set acc" using Cons.prems(3) by (auto simp: x)
  have acc: "setitem acc u ?e' = acc @ [(u, ?e')]" using new by (rule setitem_new)
  have srt: "sorted (map (\<lambda>p. - total_of (snd p)) ?items)" using Cons.prems(1) .
  have below: "\<forall>p\<in>set (x # xs). total_of (snd p) \<le> ?t"
    using srt by (auto simp: sorted_append x)
  have above: "\<forall>p\<in>set pre. ?t \<le> total_of (snd p)"
    using srt by (auto simp: sorted_append x)
  have rank: "?cr = competition_rank ?items ?t"
  proof (cases "Some ?t \<noteq> last_score")
    case True
    have strict: "\<forall>p\<in>set pre. ?t < total_of (snd p)"
    proof (cases "pre = []")
      case True
      then show ?thesis by simp
    next
      case False
      with Cons.prems(6) have ls: "last_score = Some (total_of (snd (last pre)))" by simp
      with True have ne: "total_of (snd (last pre)) \<noteq> ?t" by auto
      have "last pre \<in> set pre" using False by simp
      with above ne have lt: "?t < total_of (snd (last pre))" by force
      have sp: "sorted (map (\<lambda>p. - total_of (snd p)) pre)"
        using srt by (simp add: sorted_append)
      show ?thesis
      proof
        fix p assume "p \<in> set pre"
        then have "- total_of (snd p) \<in> set (map (\<lambda>p. - total_of (snd p)) pre)" by simp
        from sorted_le_last [OF sp this] False
        have "- total_of (snd p) \<le> - total_of (snd (last pre))"
          by (simp add: last_map)
        with lt show "?t < total_of (snd p)" by simp
      qed
    qed
    have "filter (\<lambda>p. ?t < total_of (snd p)) pre = pre"
      using strict by (simp add: filter_id_conv)
    moreover have "filter (\<lambda>p. ?t < total_of (snd p)) (x # xs) = []"
      using below by (auto simp: filter_empty_conv)
    ultimately have "competition_rank ?items ?t = Suc (length pre)"
      unfolding competition_rank_def filter_append by simp
    with True Cons.prems(4) show ?thesis by simp
  next
    case False
    then have ls: "last_score = Some ?t" by simp
    with Cons.prems(5) have "pre \<noteq> []" by auto
    with Cons.prems(6) ls show ?thesis by auto
  qed
  have pre': "(pre @ [x]) @ xs = ?items" by simp
  have ih: "rank_loop xs ?ls ?cr (rank_counter + 1) (acc @ [(u, ?e')]) =
              Inr ((acc @ [(u, ?e')]) @ map (with_rank ((pre @ [x]) @ xs)) xs)"
  proof (rule Cons.IH)
    show "sorted (map (\<lambda>p. - total_of (snd p)) ((pre @ [x]) @ xs))" using srt by simp
    show "list_all (\<lambda>p. has_total (snd p)) xs" using Cons.prems(2) by simp
    show "distinct (map fst (acc @ [(u, ?e')]) @ map fst xs)"
      using Cons.prems(3) by (auto simp: x)
    show "rank_counter + 1 = length (pre @ [x])" using Cons.prems(4) by simp
    show "pre @ [x] = [] \<Longrightarrow> ?ls = None" by simp
    show "?ls = Some (total_of (snd (last (pre @ [x])))) \<and>
          ?cr = competition_rank ((pre @ [x]) @ xs) (total_of (snd (last (pre @ [x]))))"
      using rank by (auto simp: x)
  qed
  have wr: "with_rank ?items x = (u, ?e')"
    using rank by (simp add: with_rank_def x)
  show ?case
  proof (cases "Some ?t = last_score")
    case True
    with ih wr acc show ?thesis by (simp add: x tot Let_def)
  next
    case False
    with ih wr acc show ?thesis by (simp add: x tot Let_def)
  qed
qed

lemma rank_loop_sorted:
  assumes "sorted (map (\<lambda>p. - total_of (snd p)) xs)"
    and "list_all (\<lambda>p. has_total (snd p)) xs"
    and "distinct (map fst xs)"
  shows "rank_loop xs None 0 0 [] = Inr (map (with_rank xs) xs)"
  using rank_loop_eq [of "[]" xs "[]" 0 None 0] assms by simp

lemma fst_with_rank: "fst (with_rank items p) = fst p"
  by (simp add: with_rank_def)

lemma total_of_with_rank: "total_of (snd (with_rank items p)) = total_of (snd p)"
  by (simp add: with_rank_def total_of_setitem)

lemma rate_of_with_rank: "rate_of (snd (with_rank items p)) = rate_of (snd p)"
  by (simp add: with_rank_def rate_of_def dict_get_def map_of_setitem)

lemma rank_of_with_rank:
  "rank_of (snd (with_rank items q)) = of_nat (competition_rank items (total_of (snd q)))"
  by (simp add: with_rank_def rank_of_def dict_get_def map_of_setitem)

lemma getitem_rank_with_rank:
  "getitem (snd (with_rank items q)) ''rank'' = Inr (rank_of (snd (with_rank items q)))"
  by (simp add: with_rank_def rank_of_def dict_get_def getitem_def map_of_setitem)

lemma set_ranked: "set (ranked items) = with_rank items ` set items"
  by (simp add: ranked_def)

lemma keys_ranked: "map fst (ranked items) = map fst items"
  by (simp add: ranked_def comp_def fst_with_rank)

lemma ranked_entry:
  assumes "p \<in> set (ranked items)"
  shows "\<exists>q\<in>set items. p = with_rank items q"
  using assms by (auto simp: ranked_def)

lemma count_above_ranked:
  "length (filter (\<lambda>q. t < total_of (snd q)) (ranked items)) =
   length (filter (\<lambda>q. t < total_of (snd q)) items)"
  by (simp add: ranked_def filter_map comp_def total_of_with_rank)

lemma length_filter_mono:
  "(\<And>x. x \<in> set xs \<Longrightarrow> P x \<Longrightarrow> Q x) \<Longrightarrow> length (filter P xs) \<le> length (filter Q xs)"
  by (induction xs) auto

lemma competition_rank_antimono:
  "t \<le> t' \<Longrightarrow> competition_rank items t' \<le> competition_rank items t"
  unfolding competition_rank_def
  by (auto intro!: length_filter_mono)

section \<open>The whole computation\<close>

lemma finalize_scores_eq:
  assumes "distinct (map fst scores)" and "list_all (\<lambda>p. has_total (snd p)) scores"
  shows "finalize_scores scores T ui =
           Inr (ranked (sorted_desc (relabelled ui (map (with_rate T) scores))))"
proof -
  let ?rated = "map (with_rate T) scores"
  let ?rel = "relabelled ui ?rated"
  let ?items = "sorted_desc ?rel"
  have d1: "distinct (map fst ?rated)"
    using assms(1) by (simp add: comp_def fst_with_rate)
  have t1: "list_all (\<lambda>p. has_total (snd p)) ?rated"
    using assms(2) by (simp add: list_all_iff has_total_with_rate)
  have d2: "distinct (map fst ?rel)" using d1 by (rule relabelled_distinct)
  have t2: "list_all (\<lambda>p. has_total (snd p)) ?rel"
    using t1 relabelled_set [of ui ?rated] by (fastforce simp: list_all_iff)
  have d3: "distinct (map fst ?items)"
    using d2 by (simp add: sorted_desc_def distinct_map)
  have t3: "list_all (\<lambda>p. has_total (snd p)) ?items"
    using t2 by (simp add: sorted_desc_def list_all_iff)
  have s3: "sorted (map (\<lambda>p. - total_of (snd p)) ?items)"
    by (simp add: sorted_desc_def)
  have rel: "(case ui of None \<Rightarrow> ?rated | Some d \<Rightarrow> if d \<noteq> [] then relabel_loop ?rated d [] else ?rated)
               = ?rel"
    by (simp add: relabelled_def)
  have srt: "sorted_items ?rel = Inr ?items"
    using sorted_items_eq [OF t2] by (simp add: sorted_desc_def)
  show ?thesis
    unfolding finalize_scores_def rate_loop_eq [OF assms(2)]
    by (simp add: rel srt Let_def rank_loop_sorted [OF s3 t3 d3] ranked_def)
qed

lemma calculate_scores_eq:
  "calculate_scores ps ui mc =
     Inr (ranked (sorted_desc (relabelled ui
            (map (with_rate (of_int (snd (score_loop ps [] 0))))
               (kept mc (fst (score_loop ps [] 0)))))))"
proof -
  obtain scores T where sl: "score_loop ps [] 0 = (scores, T)" by (cases "score_loop ps [] 0")
  from score_loop_invariant [OF sl] have inv:
    "distinct (map fst scores)" "list_all (\<lambda>p. has_total (snd p)) scores" by simp_all
  have dk: "distinct (map fst (kept mc scores))"
    using inv(1) by (simp add: kept_def distinct_map_filter)
  have tk: "list_all (\<lambda>p. has_total (snd p)) (kept mc scores)"
    using inv(2) by (simp add: kept_def list_all_iff)
  have flt: "(if 0 < mc then filter_min scores mc else Inr scores) = Inr (kept mc scores)"
    by (simp add: kept_def filter_min_eq [OF inv(2)])
  show ?thesis
    by (simp add: calculate_scores_def sl flt finalize_scores_eq [OF dk tk])
qed

lemma calculate_scores_has_total:
  assumes "calculate_scores ps ui mc = Inr r" and "p \<in> set r"
  shows "getitem (snd p) ''total'' = Inr (total_of (snd p))"
proof -
  obtain scores T where sl: "score_loop ps [] 0 = (scores, T)" by (cases "score_loop ps [] 0")
  from score_loop_invariant [OF sl] have inv: "list_all (\<lambda>p. has_total (snd p)) scores" by simp
  let ?rated = "map (with_rate (of_int T)) (kept mc scores)"
  let ?items = "sorted_desc (relabelled ui ?rated)"
  have r: "r = ranked ?items" using assms(1) by (simp add: calculate_scores_eq sl)
  have "list_all (\<lambda>p. has_total (snd p)) ?rated"
    using inv by (auto simp: kept_def list_all_iff has_total_with_rate)
  with relabelled_set [of ui ?rated] have "list_all (\<lambda>p. has_total (snd p)) ?items"
    by (fastforce simp: list_all_iff sorted_desc_def)
  moreover from assms(2) r obtain q where "q \<in> set ?items" "p = with_rank ?items q"
    using ranked_entry by blast
  ultimately have "has_total (snd p)"
    by (auto simp: list_all_iff with_rank_def has_total_setitem)
  then show ?thesis by (rule getitem_total)
qed

lemma kept_eq:
  assumes "distinct (map fst ps)"
  shows "kept mc (fst (score_loop ps [] 0)) = map stored_item (processed mc ps)"
proof (cases "0 < mc")
  case True
  then have "processed mc ps = filter (\<lambda>p. mc \<le> it_total (loop_body (snd p))) ps"
    by (simp add: processed_def)
  with True show ?thesis
    by (simp add: kept_def score_loop_distinct [OF assms] filter_map comp_def stored_item_def
        total_of_stored)
next
  case False
  then have "processed mc ps = ps" by (simp add: processed_def)
  with False show ?thesis
    by (simp add: kept_def score_loop_distinct [OF assms])
qed

lemma calculate_scores_distinct:
  assumes "distinct (map fst ps)"
  shows "calculate_scores ps ui mc =
     Inr (ranked (sorted_desc (relabelled ui
            (map (with_rate (of_int (\<Sum>p\<leftarrow>ps. it_total (loop_body (snd p)))))
               (map stored_item (processed mc ps))))))"
  using kept_eq [OF assms, of mc]
  by (simp add: calculate_scores_eq score_loop_distinct [OF assms])

lemma distinct_processed: "distinct (map fst ps) \<Longrightarrow> distinct (map fst (processed mc ps))"
  by (simp add: processed_def distinct_map_filter)

lemma fst_stored_item: "fst (stored_item p) = fst p"
  by (simp add: stored_item_def)

lemma result_distinct:
  assumes "distinct (map fst xs)"
  shows "distinct (map fst (ranked (sorted_desc (relabelled ui (map (with_rate T) xs)))))"
proof -
  have "distinct (map fst (map (with_rate T) xs))"
    using assms by (simp add: comp_def fst_with_rate)
  then show ?thesis
    by (simp add: keys_ranked distinct_keys_sorted_desc relabelled_distinct)
qed

lemma result_keys:
  "fst ` set (ranked (sorted_desc (relabelled ui (map (with_rate T) xs)))) =
   display_name ui ` fst ` set xs"
proof -
  have "fst ` set (ranked (sorted_desc (relabelled ui (map (with_rate T) xs)))) =
        set (map fst (ranked (sorted_desc (relabelled ui (map (with_rate T) xs)))))" by simp
  also have "\<dots> = fst ` set (relabelled ui (map (with_rate T) xs))"
    by (simp only: keys_ranked) (simp add: set_sorted_desc)
  also have "\<dots> = display_name ui ` fst ` set (map (with_rate T) xs)"
    by (rule relabelled_keys)
  also have "\<dots> = display_name ui ` fst ` set xs"
    by (simp add: image_image fst_with_rate)
  finally show ?thesis .
qed

lemma result_entry:
  assumes "e \<in> set (ranked (sorted_desc (relabelled ui (map (with_rate T) xs))))"
  shows "\<exists>x\<in>set xs. \<exists>rank. fst e = display_name ui (fst x)
           \<and> snd e = setitem (setitem (snd x) ''rate'' (rate_value T (total_of (snd x)))) ''rank'' rank"
proof -
  let ?items = "sorted_desc (relabelled ui (map (with_rate T) xs))"
  from assms obtain q where q: "q \<in> set ?items" "e = with_rank ?items q"
    by (auto simp: set_ranked)
  from q(1) have "q \<in> set (relabelled ui (map (with_rate T) xs))"
    by (simp add: set_sorted_desc)
  with relabelled_set [of ui "map (with_rate T) xs"]
  obtain x where x: "x \<in> set xs" "q = (display_name ui (fst (with_rate T x)), snd (with_rate T x))"
    by auto
  have "fst e = display_name ui (fst x)"
    by (simp add: q(2) x(2) with_rank_def with_rate_def)
  moreover have "snd e = setitem (setitem (snd x) ''rate'' (rate_value T (total_of (snd x)))) ''rank''
      (of_nat (competition_rank ?items (total_of (snd q))))"
    by (simp add: q(2) x(2) with_rank_def with_rate_def)
  ultimately show ?thesis using x(1) by blast
qed

lemma result_lookup:
  assumes "distinct (map fst xs)"
    and "same = filter (\<lambda>p. display_name ui (fst p) = D) xs"
    and "same \<noteq> []"
  shows "\<exists>rank. map_of (ranked (sorted_desc (relabelled ui (map (with_rate T) xs)))) D =
           Some (setitem (snd (with_rate T (last same))) ''rank'' rank)"
proof -
  let ?rated = "map (with_rate T) xs"
  let ?rel = "relabelled ui ?rated"
  let ?items = "sorted_desc ?rel"
  let ?r = "ranked ?items"
  let ?E = "snd (with_rate T (last same))"
  have dr: "distinct (map fst ?rated)" using assms(1) by (simp add: comp_def fst_with_rate)
  have "filter (\<lambda>q. display_name ui (fst q) = D) ?rated = map (with_rate T) same"
    by (simp add: assms(2) filter_map comp_def fst_with_rate)
  with assms(3)
  have "map_of (rev (map (\<lambda>q. (display_name ui (fst q), snd q)) ?rated)) D = Some ?E"
    using map_of_rev_last [of "display_name ui" ?rated D] by (simp add: last_map)
  then have "map_of ?rel D = Some ?E"
    by (simp only: relabelled_map_of [OF dr])
  then have "(D, ?E) \<in> set ?rel" by (rule map_of_SomeD)
  then have "(D, ?E) \<in> set ?items" by (simp add: set_sorted_desc)
  then have "with_rank ?items (D, ?E) \<in> set ?r" by (simp add: set_ranked)
  then have mem: "(D, setitem ?E ''rank'' (of_nat (competition_rank ?items (total_of ?E))))
      \<in> set ?r"
    by (simp add: with_rank_def)
  have "distinct (map fst ?r)" using assms(1) by (rule result_distinct)
  with mem have "map_of ?r D =
      Some (setitem ?E ''rank'' (of_nat (competition_rank ?items (total_of ?E))))"
    by simp
  then show ?thesis by blast
qed

lemma getitem_rate_entry:
  "e = setitem (setitem d ''rate'' v) ''rank'' w \<Longrightarrow> getitem e ''rate'' = Inr (rate_of e)"
  by (simp add: rate_of_def dict_get_def getitem_def map_of_setitem)

lemma rate_of_entry:
  "e = setitem (setitem d ''rate'' v) ''rank'' w \<Longrightarrow> rate_of e = v"
  by (simp add: rate_of_def dict_get_def map_of_setitem)

lemma total_of_entry:
  "e = setitem (setitem d ''rate'' v) ''rank'' w \<Longrightarrow> total_of e = total_of d"
  by (simp add: total_of_setitem)

lemma sum_list_error:
  "(\<And>x. x \<in> set xs \<Longrightarrow> \<bar>f x - g x\<bar> \<le> c) \<Longrightarrow>
   \<bar>sum_list (map f xs) - sum_list (map g xs)\<bar> \<le> c * of_nat (length xs)"
  for f g :: "'a \<Rightarrow> rat"
proof (induction xs)
  case Nil
  then show ?case by simp
next
  case (Cons x xs)
  have "\<bar>f x - g x\<bar> \<le> c" using Cons.prems by simp
  moreover have "\<bar>sum_list (map f xs) - sum_list (map g xs)\<bar> \<le> c * of_nat (length xs)"
    using Cons.prems by (intro Cons.IH) simp
  ultimately show ?case by (simp add: algebra_simps)
qed

lemma sum_list_scaled:
  "sum_list (map (\<lambda>e. h e / T * 100) xs) = sum_list (map h xs) / T * 100"
  for h :: "'a \<Rightarrow> rat"
  by (induction xs) (simp_all add: add_divide_distrib distrib_right)

lemma of_int_sum_list_map:
  "rat_of_int (\<Sum>p\<leftarrow>xs. h p) = (\<Sum>p\<leftarrow>xs. rat_of_int (h p))"
  by (induction xs) simp_all

lemma member_le_sum_list_int:
  "\<forall>x\<in>set xs. 0 \<le> f x \<Longrightarrow> p \<in> set xs \<Longrightarrow> f p \<le> (\<Sum>x\<leftarrow>xs. f x)"
  for f :: "'a \<Rightarrow> int"
proof (induction xs)
  case Nil
  then show ?case by simp
next
  case (Cons x xs)
  have nn: "0 \<le> (\<Sum>x\<leftarrow>xs. f x)" using Cons.prems(1) by (intro sum_list_nonneg) auto
  show ?case
  proof (cases "p = x")
    case True
    with nn show ?thesis by simp
  next
    case False
    with Cons.prems have "f p \<le> (\<Sum>x\<leftarrow>xs. f x)" by (intro Cons.IH) simp_all
    moreover have "0 \<le> f x" using Cons.prems(1) by simp
    ultimately show ?thesis by simp
  qed
qed

lemma sum_list_filter_zero:
  "\<forall>p\<in>set xs. \<not> P p \<longrightarrow> f p = 0 \<Longrightarrow> (\<Sum>p\<leftarrow>filter P xs. f p) = (\<Sum>p\<leftarrow>xs. f p)"
  for f :: "'a \<Rightarrow> int"
  by (induction xs) auto

section \<open>The running example\<close>

lemmas stage_defs =
  processed_def stored_item_def with_rate_def relabelled_def sorted_desc_def ranked_def
  with_rank_def competition_rank_def total_of_def dict_get_def setitem_def

lemma example_distinct: "distinct (map fst example_participants)"
  by (simp add: example_participants_def)

lemma example_idle_distinct: "distinct (map fst (example_participants @ [(''eve'', [])]))"
  by (simp add: example_participants_def)

lemma example_iterations:
  "it_total (loop_body [(''p_enhancement'', 2)]) = 6"
  "it_stored (loop_body [(''p_enhancement'', 2)]) =
     [(''feat/bug PR'', 6), (''document PR'', 0), (''typo PR'', 0),
      (''feat/bug issue'', 0), (''document issue'', 0), (''total'', 6)]"
  "it_total (loop_body [(''i_enhancement'', 2)]) = 4"
  "it_stored (loop_body [(''i_enhancement'', 2)]) =
     [(''feat/bug PR'', 0), (''document PR'', 0), (''typo PR'', 0),
      (''feat/bug issue'', 4), (''document issue'', 0), (''total'', 4)]"
  "it_total (loop_body [(''i_enhancement'', 1), (''i_documentation'', 2)]) = 4"
  "it_stored (loop_body [(''i_enhancement'', 1), (''i_documentation'', 2)]) =
     [(''feat/bug PR'', 0), (''document PR'', 0), (''typo PR'', 0),
      (''feat/bug issue'', 2), (''document issue'', 2), (''total'', 4)]"
  "it_total (loop_body [(''i_documentation'', 1)]) = 1"
  "it_stored (loop_body [(''i_documentation'', 1)]) =
     [(''feat/bug PR'', 0), (''document PR'', 0), (''typo PR'', 0),
      (''feat/bug issue'', 0), (''document issue'', 1), (''total'', 1)]"
  "it_total (loop_body []) = 0"
  "it_stored (loop_body []) =
     [(''feat/bug PR'', 0), (''document PR'', 0), (''typo PR'', 0),
      (''feat/bug issue'', 0), (''document issue'', 0), (''total'', 0)]"
  by code_simp+

lemma example_rates:
  "rate_value 15 6 = 40"
  "rate_value 15 4 = 7515381878174515 / 281474976710656"
  "rate_value 15 1 = 7543529375845581 / 1125899906842624"
  "rate_value 4 4 = 100"
  by code_simp+

lemma example_scores:
  "calculate_scores example_participants None 0 =
     Inr [(''alice'',
           [(''feat/bug PR'', 6), (''document PR'', 0), (''typo PR'', 0),
            (''feat/bug issue'', 0), (''document issue'', 0), (''total'', 6),
            (''rate'', 40), (''rank'', 1)]),
          (''bob'',
           [(''feat/bug PR'', 0), (''document PR'', 0), (''typo PR'', 0),
            (''feat/bug issue'', 4), (''document issue'', 0), (''total'', 4),
            (''rate'', 7515381878174515 / 281474976710656), (''rank'', 2)]),
          (''carol'',
           [(''feat/bug PR'', 0), (''document PR'', 0), (''typo PR'', 0),
            (''feat/bug issue'', 2), (''document issue'', 2), (''total'', 4),
            (''rate'', 7515381878174515 / 281474976710656), (''rank'', 2)]),
          (''dave'',
           [(''feat/bug PR'', 0), (''document PR'', 0), (''typo PR'', 0),
            (''feat/bug issue'', 0), (''document issue'', 1), (''total'', 1),
            (''rate'', 7543529375845581 / 1125899906842624), (''rank'', 4)])]"
  unfolding calculate_scores_distinct [OF example_distinct]
  by (simp add: example_participants_def stage_defs example_iterations example_rates)

lemma example_scores_min4:
  "calculate_scores example_participants None 4 =
     Inr [(''alice'',
           [(''feat/bug PR'', 6), (''document PR'', 0), (''typo PR'', 0),
            (''feat/bug issue'', 0), (''document issue'', 0), (''total'', 6),
            (''rate'', 40), (''rank'', 1)]),
          (''bob'',
           [(''feat/bug PR'', 0), (''document PR'', 0), (''typo PR'', 0),
            (''feat/bug issue'', 4), (''document issue'', 0), (''total'', 4),
            (''rate'', 7515381878174515 / 281474976710656), (''rank'', 2)]),
          (''carol'',
           [(''feat/bug PR'', 0), (''document PR'', 0), (''typo PR'', 0),
            (''feat/bug issue'', 2), (''document issue'', 2), (''total'', 4),
            (''rate'', 7515381878174515 / 281474976710656), (''rank'', 2)])]"
  unfolding calculate_scores_distinct [OF example_distinct]
  by (simp add: example_participants_def stage_defs example_iterations example_rates)

lemma example_scores_team:
  "calculate_scores example_participants (Some [(''bob'', ''team''), (''carol'', ''team'')]) 0 =
     Inr [(''alice'',
           [(''feat/bug PR'', 6), (''document PR'', 0), (''typo PR'', 0),
            (''feat/bug issue'', 0), (''document issue'', 0), (''total'', 6),
            (''rate'', 40), (''rank'', 1)]),
          (''team'',
           [(''feat/bug PR'', 0), (''document PR'', 0), (''typo PR'', 0),
            (''feat/bug issue'', 2), (''document issue'', 2), (''total'', 4),
            (''rate'', 7515381878174515 / 281474976710656), (''rank'', 2)]),
          (''dave'',
           [(''feat/bug PR'', 0), (''document PR'', 0), (''typo PR'', 0),
            (''feat/bug issue'', 0), (''document issue'', 1), (''total'', 1),
            (''rate'', 7543529375845581 / 1125899906842624), (''rank'', 3)])]"
  unfolding calculate_scores_distinct [OF example_distinct]
  by (simp add: example_participants_def stage_defs example_iterations example_rates)

lemma example_scores_idle:
  "calculate_scores (example_participants @ [(''eve'', [])]) None 1 =
     Inr [(''alice'',
           [(''feat/bug PR'', 6), (''document PR'', 0), (''typo PR'', 0),
            (''feat/bug issue'', 0), (''document issue'', 0), (''total'', 6),
            (''rate'', 40), (''rank'', 1)]),
          (''bob'',
           [(''feat/bug PR'', 0), (''document PR'', 0), (''typo PR'', 0),
            (''feat/bug issue'', 4), (''document issue'', 0), (''total'', 4),
            (''rate'', 7515381878174515 / 281474976710656), (''rank'', 2)]),
          (''carol'',
           [(''feat/bug PR'', 0), (''document PR'', 0), (''typo PR'', 0),
            (''feat/bug issue'', 2), (''document issue'', 2), (''total'', 4),
            (''rate'', 7515381878174515 / 281474976710656), (''rank'', 2)]),
          (''dave'',
           [(''feat/bug PR'', 0), (''document PR'', 0), (''typo PR'', 0),
            (''feat/bug issue'', 0), (''document issue'', 1), (''total'', 1),
            (''rate'', 7543529375845581 / 1125899906842624), (''rank'', 4)])]"
  unfolding calculate_scores_distinct [OF example_idle_distinct]
  by (simp add: example_participants_def stage_defs example_iterations example_rates)

lemma example_grand_total: "snd (score_loop example_participants [] 0) = 15"
  by (simp add: score_loop_sum example_participants_def example_iterations)

lemma example_grand_total_idle:
  "snd (score_loop (example_participants @ [(''eve'', [])]) [] 0) = 15"
  by (simp add: score_loop_sum example_participants_def example_iterations)

section \<open>Valid and attributed counts\<close>

text \<open>
  Claim C3, for both paths of the loop. The \<^verbatim>\<open>p_valid\<close> that \<^verbatim>\<open>_calculate_valid_counts\<close>
  returns never exceeds \<^verbatim>\<open>p_fb + p_d + p_t\<close>, and it is the \<^verbatim>\<open>p_valid\<close> of the
  iteration unless the zero-PR special case applies; there \<^verbatim>\<open>p_valid\<close> is set to 1. On
  both paths the \<^verbatim>\<open>i_valid\<close> of the iteration exceeds neither \<^verbatim>\<open>i_fb + i_d\<close> nor
  \<^verbatim>\<open>4 * p_valid\<close>.
\<close>

theorem valid_counts_bounds:
  assumes "extract_pr_counts activities = (p_f, p_b, p_d, p_t, p_fb)"
    and "extract_issue_counts activities = (i_f, i_b, i_d, i_fb)"
  shows "fst (calculate_valid_counts p_fb p_d p_t i_fb i_d) \<le> p_fb + p_d + p_t
    \<and> (if p_fb = 0 \<and> p_d = 0 \<and> p_t = 0 \<and> 0 < i_fb + i_d
        then it_p_valid (loop_body activities) = 1
        else it_p_valid (loop_body activities) = fst (calculate_valid_counts p_fb p_d p_t i_fb i_d))
    \<and> it_i_valid (loop_body activities) \<le> i_fb + i_d
    \<and> it_i_valid (loop_body activities) \<le> 4 * it_p_valid (loop_body activities)"
  using assms
  by (simp add: loop_body_def calculate_valid_counts_def Let_def split: prod.splits)

text \<open>
  In the special case the synthetic \<^verbatim>\<open>p_valid = 1\<close> does exceed \<^verbatim>\<open>p_fb + p_d + p_t\<close>,
  which is 0: a participant with one feature issue and nothing else.
\<close>

theorem valid_counts_special_counterexample:
  "extract_pr_counts [(''i_enhancement'', 1)] = (0, 0, 0, 0, 0)
   \<and> \<not> it_p_valid (loop_body [(''i_enhancement'', 1)]) \<le> 0 + 0 + 0"
  by (simp add: loop_body_def extract_pr_counts_def extract_issue_counts_def
      calculate_valid_counts_def dict_get_def Let_def)

text \<open>
  A participant with five documentation pull requests and twenty bug issues (the general
  path, \<^verbatim>\<open>p_valid = 3\<close>), and one with the twenty bug issues only (the special case).
\<close>

theorem valid_counts_bounds_witness:
  "extract_pr_counts [(''p_documentation'', 5), (''i_bug'', 20)] = (0, 0, 5, 0, 0)
   \<and> extract_issue_counts [(''p_documentation'', 5), (''i_bug'', 20)] = (0, 20, 0, 20)
   \<and> it_p_valid (loop_body [(''p_documentation'', 5), (''i_bug'', 20)]) = 3
   \<and> it_i_valid (loop_body [(''p_documentation'', 5), (''i_bug'', 20)]) \<le> 4 * 3
   \<and> extract_pr_counts [(''i_bug'', 20)] = (0, 0, 0, 0, 0)
   \<and> extract_issue_counts [(''i_bug'', 20)] = (0, 20, 0, 20)
   \<and> it_p_valid (loop_body [(''i_bug'', 20)]) = 1
   \<and> it_i_valid (loop_body [(''i_bug'', 20)]) \<le> 4 * 1"
proof -
  have pr1: "extract_pr_counts [(''p_documentation'', 5), (''i_bug'', 20)] = (0, 0, 5, 0, 0)"
    by (simp add: extract_pr_counts_def dict_get_def)
  have is1: "extract_issue_counts [(''p_documentation'', 5), (''i_bug'', 20)] = (0, 20, 0, 20)"
    by (simp add: extract_issue_counts_def dict_get_def)
  have pr2: "extract_pr_counts [(''i_bug'', 20)] = (0, 0, 0, 0, 0)"
    by (simp add: extract_pr_counts_def dict_get_def)
  have is2: "extract_issue_counts [(''i_bug'', 20)] = (0, 20, 0, 20)"
    by (simp add: extract_issue_counts_def dict_get_def)
  show ?thesis
    using valid_counts_bounds [OF pr1 is1] valid_counts_bounds [OF pr2 is2] pr1 is1 pr2 is2
    by (simp add: calculate_valid_counts_def)
qed

text \<open>
  Claim C5. The counts returned by \<^verbatim>\<open>_calculate_adjusted_counts\<close> add up:
  \<^verbatim>\<open>p_fb_at + p_d_at + p_t_at == p_valid\<close> and \<^verbatim>\<open>i_fb_at + i_d_at == i_valid\<close>. For
  non-negative inputs with \<^verbatim>\<open>p_fb <= p_valid\<close>, feature/bug pull requests are credited
  first and in full, documentation pull requests get what is left up to their number,
  typo pull requests get the remainder, and likewise for issues; no attributed count is
  negative.
\<close>

theorem adjusted_counts_sum:
  assumes "calculate_adjusted_counts p_fb p_d p_valid i_fb i_valid =
             (p_fb_at, p_d_at, p_t_at, i_fb_at, i_d_at)"
  shows "p_fb_at + p_d_at + p_t_at = p_valid
    \<and> i_fb_at + i_d_at = i_valid
    \<and> (0 \<le> p_fb \<and> p_fb \<le> p_valid \<and> 0 \<le> p_d \<and> 0 \<le> i_fb \<and> 0 \<le> i_valid \<longrightarrow>
         p_fb_at = p_fb
       \<and> p_d_at = min p_d (p_valid - p_fb)
       \<and> p_t_at = p_valid - p_fb - p_d_at
       \<and> i_fb_at = min i_fb i_valid
       \<and> i_d_at = i_valid - i_fb_at
       \<and> 0 \<le> p_d_at \<and> 0 \<le> p_t_at \<and> 0 \<le> i_fb_at \<and> 0 \<le> i_d_at)"
  using assms by (auto simp: calculate_adjusted_counts_def Let_def)

text \<open>
  Two feature/bug, seven documentation and four typo pull requests with one feature/bug
  and thirty documentation issues: \<^verbatim>\<open>p_valid = 8\<close>, \<^verbatim>\<open>i_valid = 31\<close>.
\<close>

theorem adjusted_counts_sum_witness:
  "calculate_valid_counts 2 7 4 1 30 = (8, 31)
   \<and> calculate_adjusted_counts 2 7 8 1 31 = (2, 6, 0, 1, 30)
   \<and> (0::int) \<le> 2 \<and> (2::int) \<le> 8 \<and> (0::int) \<le> 7 \<and> (0::int) \<le> 1 \<and> (0::int) \<le> 31
   \<and> (2::int) + 6 + 0 = 8 \<and> (1::int) + 30 = 31
   \<and> (6::int) = min 7 (8 - 2) \<and> (0::int) = 8 - 2 - 6
   \<and> (1::int) = min 1 31 \<and> (30::int) = 31 - 1"
proof -
  have adj: "calculate_adjusted_counts 2 7 8 1 31 = (2, 6, 0, 1, 30)"
    by (simp add: calculate_adjusted_counts_def)
  show ?thesis
    using adjusted_counts_sum [OF adj] adj by (simp add: calculate_valid_counts_def)
qed

section \<open>The zero-PR special case\<close>

text \<open>
  Claim C1. A participant with no pull request of any kind (\<^verbatim>\<open>p_fb == 0\<close>,
  \<^verbatim>\<open>p_d == 0\<close>, \<^verbatim>\<open>p_t == 0\<close>) and at least one issue is scored on the synthetic-credit
  path: \<^verbatim>\<open>p_valid\<close> is 1, \<^verbatim>\<open>i_valid\<close> is \<^verbatim>\<open>min(i_fb + i_d, 4)\<close>, the three
  pull-request fields of the stored entry are 0, and \<^verbatim>\<open>total\<close> is
  \<^verbatim>\<open>2 * i_fb_at + 1 * i_d_at\<close> with \<^verbatim>\<open>i_fb_at = min(i_fb, i_valid)\<close> and
  \<^verbatim>\<open>i_d_at = i_valid - i_fb_at\<close>.
\<close>

theorem synthetic_credit_path:
  assumes "extract_pr_counts activities = (p_f, p_b, p_d, p_t, p_fb)"
    and "extract_issue_counts activities = (i_f, i_b, i_d, i_fb)"
    and "p_fb = 0 \<and> p_d = 0 \<and> p_t = 0"
    and "0 < i_fb + i_d"
  shows "it_p_valid (loop_body activities) = 1
    \<and> it_i_valid (loop_body activities) = min (i_fb + i_d) 4
    \<and> it_i_fb_at (loop_body activities) = min i_fb (it_i_valid (loop_body activities))
    \<and> it_i_d_at (loop_body activities) =
        it_i_valid (loop_body activities) - it_i_fb_at (loop_body activities)
    \<and> getitem (it_stored (loop_body activities)) ''feat/bug PR'' = Inr 0
    \<and> getitem (it_stored (loop_body activities)) ''document PR'' = Inr 0
    \<and> getitem (it_stored (loop_body activities)) ''typo PR'' = Inr 0
    \<and> it_total (loop_body activities) =
        2 * it_i_fb_at (loop_body activities) + 1 * it_i_d_at (loop_body activities)
    \<and> getitem (it_stored (loop_body activities)) ''total'' =
        Inr (of_int (it_total (loop_body activities)))"
  using assms
  by (simp add: loop_body_def Let_def getitem_def score_def SCORE_WEIGHTS_def)

text \<open>
  The scenario of the specification: one feature issue and two documentation issues, no
  pull request, give a total of 4, also in the dictionary that \<^const>\<open>calculate_scores\<close>
  returns.
\<close>

theorem synthetic_credit_path_witness:
  "extract_pr_counts [(''i_enhancement'', 1), (''i_documentation'', 2)] = (0, 0, 0, 0, 0)
   \<and> extract_issue_counts [(''i_enhancement'', 1), (''i_documentation'', 2)] = (1, 0, 2, 1)
   \<and> (0::int) < 1 + 2
   \<and> it_p_valid (loop_body [(''i_enhancement'', 1), (''i_documentation'', 2)]) = 1
   \<and> it_i_valid (loop_body [(''i_enhancement'', 1), (''i_documentation'', 2)]) = 3
   \<and> it_i_fb_at (loop_body [(''i_enhancement'', 1), (''i_documentation'', 2)]) = 1
   \<and> it_i_d_at (loop_body [(''i_enhancement'', 1), (''i_documentation'', 2)]) = 2
   \<and> it_total (loop_body [(''i_enhancement'', 1), (''i_documentation'', 2)]) = 4
   \<and> calculate_scores [(''carol'', [(''i_enhancement'', 1), (''i_documentation'', 2)])] None 0 =
       Inr [(''carol'',
             [(''feat/bug PR'', 0), (''document PR'', 0), (''typo PR'', 0),
              (''feat/bug issue'', 2), (''document issue'', 2), (''total'', 4),
              (''rate'', 100), (''rank'', 1)])]"
proof -
  have carol_distinct:
    "distinct (map fst [(''carol'', [(''i_enhancement'', 1::int), (''i_documentation'', 2)])])"
    by simp
  have pr: "extract_pr_counts [(''i_enhancement'', 1), (''i_documentation'', 2)] = (0, 0, 0, 0, 0)"
    by (simp add: extract_pr_counts_def dict_get_def)
  have iss: "extract_issue_counts [(''i_enhancement'', 1), (''i_documentation'', 2)] = (1, 0, 2, 1)"
    by (simp add: extract_issue_counts_def dict_get_def)
  have run: "calculate_scores [(''carol'', [(''i_enhancement'', 1), (''i_documentation'', 2)])] None 0 =
       Inr [(''carol'',
             [(''feat/bug PR'', 0), (''document PR'', 0), (''typo PR'', 0),
              (''feat/bug issue'', 2), (''document issue'', 2), (''total'', 4),
              (''rate'', 100), (''rank'', 1)])]"
    unfolding calculate_scores_distinct [OF carol_distinct]
    by (simp add: stage_defs example_iterations example_rates)
  show ?thesis
    using synthetic_credit_path [OF pr iss] pr iss run by simp
qed

text \<open>
  Claim C7. On the zero-PR special-case path, whose guard requires \<^verbatim>\<open>p_t == 0\<close>, the
  expression \<^verbatim>\<open>1 if p_t > 0 else 0\<close> is 0, so \<^verbatim>\<open>p_t_at\<close> is 0, the typo term adds
  nothing to the total, and the stored \<^verbatim>\<open>"typo PR"\<close> field is 0.
\<close>

theorem typo_credit_unreachable:
  assumes "extract_pr_counts activities = (p_f, p_b, p_d, p_t, p_fb)"
    and "extract_issue_counts activities = (i_f, i_b, i_d, i_fb)"
    and "p_fb = 0 \<and> p_d = 0 \<and> p_t = 0 \<and> 0 < i_fb + i_d"
  shows "(if 0 < p_t then 1 else 0) = (0::int)
    \<and> it_p_t_at (loop_body activities) = 0
    \<and> typo_pr score * it_p_t_at (loop_body activities) = 0
    \<and> it_total (loop_body activities) =
         feat_bug_is score * it_i_fb_at (loop_body activities) +
         doc_is score * it_i_d_at (loop_body activities)
    \<and> getitem (it_stored (loop_body activities)) ''typo PR'' = Inr 0"
  using assms by (simp add: loop_body_def Let_def getitem_def)

text \<open>
  Three bug issues and no pull request.
\<close>

theorem typo_credit_unreachable_witness:
  "extract_pr_counts [(''i_bug'', 3)] = (0, 0, 0, 0, 0)
   \<and> extract_issue_counts [(''i_bug'', 3)] = (0, 3, 0, 3)
   \<and> (0::int) < 3 + 0
   \<and> it_p_t_at (loop_body [(''i_bug'', 3)]) = 0
   \<and> it_total (loop_body [(''i_bug'', 3)]) = 6"
proof -
  have pr: "extract_pr_counts [(''i_bug'', 3)] = (0, 0, 0, 0, 0)"
    by (simp add: extract_pr_counts_def dict_get_def)
  have iss: "extract_issue_counts [(''i_bug'', 3)] = (0, 3, 0, 3)"
    by (simp add: extract_issue_counts_def dict_get_def)
  have "it_i_fb_at (loop_body [(''i_bug'', 3)]) = 3 \<and> it_i_d_at (loop_body [(''i_bug'', 3)]) = 0"
    by (simp add: loop_body_def Let_def pr iss calculate_valid_counts_def)
  then show ?thesis
    using typo_credit_unreachable [OF pr iss] pr iss by (simp add: score_def SCORE_WEIGHTS_def)
qed

text \<open>
  Claim C10. A participant with no pull request of any kind has a total of at most 8,
  however many issues there are: \<^verbatim>\<open>i_valid\<close> is at most 4, the total is
  \<^verbatim>\<open>2 * i_fb_at + 1 * i_d_at\<close>, and that is at most \<^verbatim>\<open>2 * i_valid\<close>.
\<close>

theorem zero_pr_total_at_most_8:
  assumes "extract_pr_counts activities = (p_f, p_b, p_d, p_t, p_fb)"
    and "p_fb = 0 \<and> p_d = 0 \<and> p_t = 0"
  shows "it_total (loop_body activities) \<le> 8
    \<and> it_i_valid (loop_body activities) \<le> 4
    \<and> it_total (loop_body activities) =
         2 * it_i_fb_at (loop_body activities) + 1 * it_i_d_at (loop_body activities)
    \<and> it_total (loop_body activities) \<le> 2 * it_i_valid (loop_body activities)
    \<and> getitem (it_stored (loop_body activities)) ''total'' =
         Inr (of_int (it_total (loop_body activities)))"
  using assms
  by (auto simp: loop_body_def Let_def getitem_def score_def SCORE_WEIGHTS_def
      calculate_valid_counts_def calculate_adjusted_counts_def calculate_total_score_def
      create_score_dict_def split: prod.splits)

text \<open>
  Two hundred issues and no pull request: the total is 8.
\<close>

theorem zero_pr_total_at_most_8_witness:
  "extract_pr_counts [(''i_enhancement'', 50), (''i_bug'', 50), (''i_documentation'', 100)]
     = (0, 0, 0, 0, 0)
   \<and> it_total (loop_body [(''i_enhancement'', 50), (''i_bug'', 50), (''i_documentation'', 100)]) = 8
   \<and> it_total (loop_body [(''i_enhancement'', 50), (''i_bug'', 50), (''i_documentation'', 100)]) \<le> 8"
proof -
  have pr: "extract_pr_counts [(''i_enhancement'', 50), (''i_bug'', 50), (''i_documentation'', 100)]
     = (0, 0, 0, 0, 0)"
    by (simp add: extract_pr_counts_def dict_get_def)
  have "it_total (loop_body [(''i_enhancement'', 50), (''i_bug'', 50), (''i_documentation'', 100)]) = 8"
    by (simp add: loop_body_def Let_def pr extract_issue_counts_def dict_get_def
        calculate_valid_counts_def score_def SCORE_WEIGHTS_def)
  then show ?thesis
    using zero_pr_total_at_most_8 [OF pr] pr by simp
qed

section \<open>Threshold, relabelling, rates and ranks\<close>

text \<open>
  Claim C6, with the effect of relabelling. Let \<^verbatim>\<open>min_contributions\<close> be at least 0
  (and, when it is 0, let no counter be negative). Every returned entry has a total of
  at least \<^verbatim>\<open>min_contributions\<close>, and it is the stored entry, with its rate and rank, of
  a participant whose total is at least \<^verbatim>\<open>min_contributions\<close>, filed under that
  participant's display name; so a participant below the threshold contributes no entry.
  The display name of every participant at or above the threshold is a key of the
  result, and it holds that participant's own entry when no later participant at or
  above the threshold has the same display name. Without \<^verbatim>\<open>user_info\<close> a participant
  is a key of the result exactly when its total is at least \<^verbatim>\<open>min_contributions\<close>, and
  then with its own entry.
\<close>

theorem min_contributions_filter:
  assumes "distinct (map fst participants)"
    and "0 \<le> min_contributions"
    and "0 < min_contributions \<or> (\<forall>p\<in>set participants. \<forall>c\<in>set (snd p). 0 \<le> snd c)"
  shows "\<exists>r. calculate_scores participants user_info min_contributions = Inr r
     \<and> (\<forall>e\<in>set r. getitem (snd e) ''total'' = Inr (total_of (snd e))
                 \<and> of_int min_contributions \<le> total_of (snd e))
     \<and> (\<forall>e\<in>set r. \<exists>p\<in>set participants. \<exists>rate rank.
            min_contributions \<le> it_total (loop_body (snd p))
          \<and> fst e = display_name user_info (fst p)
          \<and> snd e = setitem (setitem (it_stored (loop_body (snd p))) ''rate'' rate) ''rank'' rank)
     \<and> (\<forall>p\<in>set participants. min_contributions \<le> it_total (loop_body (snd p)) \<longrightarrow>
            display_name user_info (fst p) \<in> fst ` set r)
     \<and> (\<forall>p\<in>set participants.
            min_contributions \<le> it_total (loop_body (snd p))
          \<and> last (filter (\<lambda>q. display_name user_info (fst q) = display_name user_info (fst p))
                   (filter (\<lambda>q. min_contributions \<le> it_total (loop_body (snd q))) participants))
              = p \<longrightarrow>
            (\<exists>rate rank. map_of r (display_name user_info (fst p)) =
               Some (setitem (setitem (it_stored (loop_body (snd p))) ''rate'' rate) ''rank'' rank)))
     \<and> (\<forall>p\<in>set participants. user_info = None \<longrightarrow>
            (fst p \<in> fst ` set r) = (min_contributions \<le> it_total (loop_body (snd p)))
          \<and> (min_contributions \<le> it_total (loop_body (snd p)) \<longrightarrow>
               (\<exists>rate rank. map_of r (fst p) =
                  Some (setitem (setitem (it_stored (loop_body (snd p))) ''rate'' rate)
                          ''rank'' rank))))"
proof -
  let ?T = "of_int (\<Sum>p\<leftarrow>participants. it_total (loop_body (snd p))) :: rat"
  let ?K = "processed min_contributions participants"
  let ?r = "ranked (sorted_desc (relabelled user_info (map (with_rate ?T) (map stored_item ?K))))"
  have r: "calculate_scores participants user_info min_contributions = Inr ?r"
    using assms(1) by (rule calculate_scores_distinct)
  have K: "p \<in> set ?K \<longleftrightarrow> p \<in> set participants \<and> min_contributions \<le> it_total (loop_body (snd p))"
    for p
  proof (cases "0 < min_contributions")
    case True
    then show ?thesis by (auto simp: processed_def)
  next
    case False
    with assms(2) have zero: "min_contributions = 0" by simp
    from False assms(3) have "\<forall>p\<in>set participants. \<forall>c\<in>set (snd p). 0 \<le> snd c" by simp
    then have "p \<in> set participants \<Longrightarrow> 0 \<le> it_total (loop_body (snd p))"
      using total_nonneg [of "snd p"] by blast
    with zero show ?thesis by (auto simp: processed_def)
  qed
  have "fst ` set ?r = display_name user_info ` fst ` set (map stored_item ?K)"
    by (rule result_keys)
  also have "\<dots> = display_name user_info ` fst ` set ?K"
    by (simp add: image_image fst_stored_item)
  finally have keys: "fst ` set ?r = display_name user_info ` fst ` set ?K" .
  have entry: "\<exists>p\<in>set participants. \<exists>rate rank.
            min_contributions \<le> it_total (loop_body (snd p))
          \<and> fst e = display_name user_info (fst p)
          \<and> snd e = setitem (setitem (it_stored (loop_body (snd p))) ''rate'' rate) ''rank'' rank"
    if "e \<in> set ?r" for e
  proof -
    from result_entry [OF that] obtain x rank where x: "x \<in> set (map stored_item ?K)"
      "fst e = display_name user_info (fst x)"
      "snd e = setitem (setitem (snd x) ''rate'' (rate_value ?T (total_of (snd x)))) ''rank'' rank"
      by blast
    from x(1) obtain p where p: "p \<in> set ?K" "x = stored_item p" by auto
    from p(1) K have "p \<in> set participants" "min_contributions \<le> it_total (loop_body (snd p))"
      by auto
    with x(2,3) p(2) show ?thesis
      by (auto simp: stored_item_def)
  qed
  have tot: "getitem (snd e) ''total'' = Inr (total_of (snd e))
        \<and> of_int min_contributions \<le> total_of (snd e)" if "e \<in> set ?r" for e
  proof -
    from entry [OF that] obtain p rate rank where
      p: "min_contributions \<le> it_total (loop_body (snd p))"
        "snd e = setitem (setitem (it_stored (loop_body (snd p))) ''rate'' rate) ''rank'' rank"
      and "p \<in> set participants"
      by blast
    have "total_of (snd e) = of_int (it_total (loop_body (snd p)))"
      by (simp add: p(2) total_of_setitem total_of_stored)
    with p(1) calculate_scores_has_total [OF r that] show ?thesis by simp
  qed
  have present: "display_name user_info (fst p) \<in> fst ` set ?r"
    if "p \<in> set participants" "min_contributions \<le> it_total (loop_body (snd p))" for p
  proof -
    from that K have "p \<in> set ?K" by simp
    then show ?thesis unfolding keys by blast
  qed
  have exact: "(fst p \<in> fst ` set ?r) = (min_contributions \<le> it_total (loop_body (snd p)))"
    if "p \<in> set participants" "user_info = None" for p
  proof
    assume "fst p \<in> fst ` set ?r"
    with keys that(2) obtain q where q: "q \<in> set ?K" "fst q = fst p"
      by (auto simp: display_name_def)
    with K have "q \<in> set participants" by simp
    with that(1) q(2) assms(1) have "q = p"
      by (metis eq_key_imp_eq_value prod.collapse)
    with q(1) K show "min_contributions \<le> it_total (loop_body (snd p))" by simp
  next
    assume "min_contributions \<le> it_total (loop_body (snd p))"
    from present [OF that(1) this] that(2) show "fst p \<in> fst ` set ?r"
      by (simp add: display_name_def)
  qed
  have Kf: "?K = filter (\<lambda>q. min_contributions \<le> it_total (loop_body (snd q))) participants"
    unfolding processed_def by (rule filter_cong) (use K in \<open>auto simp: processed_def\<close>)
  have own: "\<exists>rate rank. map_of ?r (display_name user_info (fst p)) =
               Some (setitem (setitem (it_stored (loop_body (snd p))) ''rate'' rate) ''rank'' rank)"
    if "p \<in> set participants" "min_contributions \<le> it_total (loop_body (snd p))"
      "last (filter (\<lambda>q. display_name user_info (fst q) = display_name user_info (fst p))
         (filter (\<lambda>q. min_contributions \<le> it_total (loop_body (snd q))) participants)) = p"
    for p
  proof -
    let ?D = "display_name user_info (fst p)"
    let ?same = "filter (\<lambda>q. display_name user_info (fst q) = ?D) ?K"
    from that(1,2) K have pK: "p \<in> set ?K" by simp
    then have ne: "?same \<noteq> []" by (auto simp: filter_empty_conv)
    from that(3) have lst: "last ?same = p" by (simp only: Kf)
    have dK: "distinct (map fst (map stored_item ?K))"
      by (simp add: comp_def fst_stored_item distinct_processed assms(1))
    have same': "map stored_item ?same =
        filter (\<lambda>x. display_name user_info (fst x) = ?D) (map stored_item ?K)"
      by (simp add: filter_map comp_def fst_stored_item)
    from ne have ne': "map stored_item ?same \<noteq> []" by simp
    from result_lookup [OF dK same' ne', of ?T] obtain rank where
      "map_of ?r ?D = Some (setitem (snd (with_rate ?T (last (map stored_item ?same)))) ''rank'' rank)"
      by blast
    with ne lst have "map_of ?r ?D =
        Some (setitem (setitem (it_stored (loop_body (snd p))) ''rate''
               (rate_value ?T (total_of (it_stored (loop_body (snd p)))))) ''rank'' rank)"
      by (simp add: last_map with_rate_def stored_item_def)
    then show ?thesis by blast
  qed
  have plain: "\<exists>rate rank. map_of ?r (fst p) =
                  Some (setitem (setitem (it_stored (loop_body (snd p))) ''rate'' rate) ''rank'' rank)"
    if "p \<in> set participants" "user_info = None"
      "min_contributions \<le> it_total (loop_body (snd p))" for p
  proof -
    from that(1,3) K have pK: "p \<in> set ?K" by simp
    have "filter (\<lambda>q. fst q = fst p) ?K = [p]"
      using distinct_processed [OF assms(1)] pK by (rule filter_own_key)
    then have "last (filter (\<lambda>q. display_name user_info (fst q) = display_name user_info (fst p))
         (filter (\<lambda>q. min_contributions \<le> it_total (loop_body (snd q))) participants)) = p"
      by (simp add: that(2) display_name_def flip: Kf)
    from own [OF that(1) that(3) this] that(2) show ?thesis
      by (simp add: display_name_def)
  qed
  show ?thesis
    using r tot entry present own exact plain by blast
qed

text \<open>
  A participant at or above the threshold is not always present: when the first and the
  last example participant are both displayed as \<^verbatim>\<open>team\<close>, the first one, with total
  6, is overwritten by the last. Its name is not a key and no returned entry has its
  total.
\<close>

theorem min_contributions_collision_counterexample:
  "it_total (loop_body [(''p_enhancement'', 2)]) = 6
   \<and> (0::int) \<le> 6
   \<and> calculate_scores example_participants (Some [(''alice'', ''team''), (''dave'', ''team'')]) 0 =
       Inr [(''bob'',
             [(''feat/bug PR'', 0), (''document PR'', 0), (''typo PR'', 0),
              (''feat/bug issue'', 4), (''document issue'', 0), (''total'', 4),
              (''rate'', 7515381878174515 / 281474976710656), (''rank'', 1)]),
            (''carol'',
             [(''feat/bug PR'', 0), (''document PR'', 0), (''typo PR'', 0),
              (''feat/bug issue'', 2), (''document issue'', 2), (''total'', 4),
              (''rate'', 7515381878174515 / 281474976710656), (''rank'', 1)]),
            (''team'',
             [(''feat/bug PR'', 0), (''document PR'', 0), (''typo PR'', 0),
              (''feat/bug issue'', 0), (''document issue'', 1), (''total'', 1),
              (''rate'', 7543529375845581 / 1125899906842624), (''rank'', 3)])]
   \<and> ''alice'' \<notin> set (map fst (projr (calculate_scores example_participants
                                   (Some [(''alice'', ''team''), (''dave'', ''team'')]) 0)))
   \<and> 6 \<notin> set (map total_of (map snd (projr (calculate_scores example_participants
                                   (Some [(''alice'', ''team''), (''dave'', ''team'')]) 0))))"
proof -
  have run: "calculate_scores example_participants (Some [(''alice'', ''team''), (''dave'', ''team'')]) 0 =
       Inr [(''bob'',
             [(''feat/bug PR'', 0), (''document PR'', 0), (''typo PR'', 0),
              (''feat/bug issue'', 4), (''document issue'', 0), (''total'', 4),
              (''rate'', 7515381878174515 / 281474976710656), (''rank'', 1)]),
            (''carol'',
             [(''feat/bug PR'', 0), (''document PR'', 0), (''typo PR'', 0),
              (''feat/bug issue'', 2), (''document issue'', 2), (''total'', 4),
              (''rate'', 7515381878174515 / 281474976710656), (''rank'', 1)]),
            (''team'',
             [(''feat/bug PR'', 0), (''document PR'', 0), (''typo PR'', 0),
              (''feat/bug issue'', 0), (''document issue'', 1), (''total'', 1),
              (''rate'', 7543529375845581 / 1125899906842624), (''rank'', 3)])]"
    unfolding calculate_scores_distinct [OF example_distinct]
    by (simp add: example_participants_def stage_defs example_iterations example_rates)
  have alice: "it_total (loop_body [(''p_enhancement'', 2)]) = 6" by (rule example_iterations)
  show ?thesis
    unfolding run using alice by (simp add: total_of_def dict_get_def)
qed

text \<open>
  The running example with a threshold of 4 and no relabelling: the participant with
  total 1 is dropped, and the third participant is present with its own entry.
\<close>

theorem min_contributions_filter_witness:
  "distinct (map fst example_participants) \<and> (0::int) \<le> 4
   \<and> (\<exists>r. calculate_scores example_participants None 4 = Inr r
        \<and> map fst r = [''alice'', ''bob'', ''carol'']
        \<and> map total_of (map snd r) = [6, 4, 4]
        \<and> ''dave'' \<notin> fst ` set r
        \<and> (\<exists>rate rank. map_of r ''carol'' =
              Some (setitem (setitem
                      [(''feat/bug PR'', 0), (''document PR'', 0), (''typo PR'', 0),
                       (''feat/bug issue'', 2), (''document issue'', 2), (''total'', 4)]
                      ''rate'' rate) ''rank'' rank)))
   \<and> it_total (loop_body [(''i_documentation'', 1)]) = 1
   \<and> it_total (loop_body [(''i_enhancement'', 1), (''i_documentation'', 2)]) = 4"
proof -
  let ?carol = "(''carol'', [(''i_enhancement'', 1::int), (''i_documentation'', 2)])"
  have mc: "(0::int) \<le> 4" by simp
  have ok: "(0::int) < 4 \<or> (\<forall>p\<in>set example_participants. \<forall>c\<in>set (snd p). 0 \<le> snd c)"
    by simp
  have dave: "it_total (loop_body [(''i_documentation'', 1)]) = 1"
    by (rule example_iterations)
  have carol: "it_total (loop_body [(''i_enhancement'', 1), (''i_documentation'', 2)]) = 4"
    by (rule example_iterations)
  have st: "it_stored (loop_body [(''i_enhancement'', 1), (''i_documentation'', 2)]) =
            [(''feat/bug PR'', 0), (''document PR'', 0), (''typo PR'', 0),
             (''feat/bug issue'', 2), (''document issue'', 2), (''total'', 4)]"
    by (rule example_iterations)
  have alice: "it_total (loop_body [(''p_enhancement'', 2)]) = 6" by (rule example_iterations)
  have bob: "it_total (loop_body [(''i_enhancement'', 2)]) = 4" by (rule example_iterations)
  have lst: "last (filter (\<lambda>q. display_name None (fst q) = display_name None (fst ?carol))
                   (filter (\<lambda>q. 4 \<le> it_total (loop_body (snd q))) example_participants))
              = ?carol"
    by (simp add: example_participants_def display_name_def alice bob carol dave)
  from min_contributions_filter [OF example_distinct mc ok, of None]
  obtain r where r: "calculate_scores example_participants None 4 = Inr r"
    and ex: "\<forall>p\<in>set example_participants.
               (fst p \<in> fst ` set r) = (4 \<le> it_total (loop_body (snd p)))"
    and own: "\<forall>p\<in>set example_participants.
            4 \<le> it_total (loop_body (snd p))
          \<and> last (filter (\<lambda>q. display_name None (fst q) = display_name None (fst p))
                   (filter (\<lambda>q. 4 \<le> it_total (loop_body (snd q))) example_participants))
              = p \<longrightarrow>
            (\<exists>rate rank. map_of r (display_name None (fst p)) =
               Some (setitem (setitem (it_stored (loop_body (snd p))) ''rate'' rate) ''rank'' rank))"
    by auto
  from ex dave have nd: "''dave'' \<notin> fst ` set r"
    by (simp add: example_participants_def)
  have "?carol \<in> set example_participants" by (simp add: example_participants_def)
  with own have "4 \<le> it_total (loop_body (snd ?carol))
          \<and> last (filter (\<lambda>q. display_name None (fst q) = display_name None (fst ?carol))
                   (filter (\<lambda>q. 4 \<le> it_total (loop_body (snd q))) example_participants))
              = ?carol \<longrightarrow>
            (\<exists>rate rank. map_of r (display_name None (fst ?carol)) =
               Some (setitem (setitem (it_stored (loop_body (snd ?carol))) ''rate'' rate) ''rank'' rank))"
    by (rule bspec)
  with lst carol have "\<exists>rate rank. map_of r (display_name None (fst ?carol)) =
               Some (setitem (setitem (it_stored (loop_body (snd ?carol))) ''rate'' rate) ''rank'' rank)"
    by simp
  then have pc: "\<exists>rate rank. map_of r ''carol'' =
              Some (setitem (setitem
                      [(''feat/bug PR'', 0), (''document PR'', 0), (''typo PR'', 0),
                       (''feat/bug issue'', 2), (''document issue'', 2), (''total'', 4)]
                      ''rate'' rate) ''rank'' rank)"
    by (simp add: display_name_def st)
  from r have rr: "r = [(''alice'',
           [(''feat/bug PR'', 6), (''document PR'', 0), (''typo PR'', 0),
            (''feat/bug issue'', 0), (''document issue'', 0), (''total'', 6),
            (''rate'', 40), (''rank'', 1)]),
          (''bob'',
           [(''feat/bug PR'', 0), (''document PR'', 0), (''typo PR'', 0),
            (''feat/bug issue'', 4), (''document issue'', 0), (''total'', 4),
            (''rate'', 7515381878174515 / 281474976710656), (''rank'', 2)]),
          (''carol'',
           [(''feat/bug PR'', 0), (''document PR'', 0), (''typo PR'', 0),
            (''feat/bug issue'', 2), (''document issue'', 2), (''total'', 4),
            (''rate'', 7515381878174515 / 281474976710656), (''rank'', 2)])]"
    by (simp add: example_scores_min4)
  have keys: "map fst r = [''alice'', ''bob'', ''carol'']"
    and tots: "map total_of (map snd r) = [6, 4, 4]"
    by (simp_all add: rr total_of_def dict_get_def)
  have "\<exists>r. calculate_scores example_participants None 4 = Inr r
        \<and> map fst r = [''alice'', ''bob'', ''carol'']
        \<and> map total_of (map snd r) = [6, 4, 4]
        \<and> ''dave'' \<notin> fst ` set r
        \<and> (\<exists>rate rank. map_of r ''carol'' =
              Some (setitem (setitem
                      [(''feat/bug PR'', 0), (''document PR'', 0), (''typo PR'', 0),
                       (''feat/bug issue'', 2), (''document issue'', 2), (''total'', 4)]
                      ''rate'' rate) ''rank'' rank))"
    using r keys tots nd pc by (intro exI [of _ r] conjI)
  with dave carol example_distinct show ?thesis by simp
qed

text \<open>
  Claim C8. Let a non-empty \<^verbatim>\<open>user_info\<close> be given and let \<^verbatim>\<open>same\<close> be the
  participants, in insertion order, that reach the relabelling loop (those that pass the
  threshold) and whose display name is \<^verbatim>\<open>D\<close>. If there is at least one, the result has
  exactly one entry under \<^verbatim>\<open>D\<close>, and it is the stored entry of the last participant of
  \<^verbatim>\<open>same\<close>, with the rate that lines 337 and 338 compute from that participant's total
  and the grand total, and a rank; no error is raised.
\<close>

theorem display_name_collision:
  assumes "distinct (map fst participants)"
    and "user_info \<noteq> []"
    and "same = filter (\<lambda>p. dict_get user_info (fst p) (fst p) = D)
                  (filter (\<lambda>p. min_contributions \<le> 0
                              \<or> min_contributions \<le> it_total (loop_body (snd p)))
                     participants)"
    and "same \<noteq> []"
  shows "\<exists>r rate rank. calculate_scores participants (Some user_info) min_contributions = Inr r
     \<and> length (filter (\<lambda>e. fst e = D) r) = 1
     \<and> map_of r D =
         Some (setitem (setitem (it_stored (loop_body (snd (last same)))) ''rate'' rate)
                 ''rank'' rank)
     \<and> getitem (it_stored (loop_body (snd (last same)))) ''total'' =
         Inr (of_int (it_total (loop_body (snd (last same)))))
     \<and> rate = py_round (if 0 < snd (score_loop participants [] 0)
                         then float_mul
                                (float_truediv (of_int (it_total (loop_body (snd (last same)))))
                                   (of_int (snd (score_loop participants [] 0)))) 100
                         else 0) 1"
proof -
  let ?Ti = "\<Sum>p\<leftarrow>participants. it_total (loop_body (snd p))"
  let ?T = "of_int ?Ti :: rat"
  let ?K = "processed min_contributions participants"
  let ?r = "ranked (sorted_desc (relabelled (Some user_info)
              (map (with_rate ?T) (map stored_item ?K))))"
  let ?D = "\<lambda>k. display_name (Some user_info) k"
  have r: "calculate_scores participants (Some user_info) min_contributions = Inr ?r"
    using assms(1) by (rule calculate_scores_distinct)
  have same: "same = filter (\<lambda>p. ?D (fst p) = D) ?K"
    using assms(3) by (simp add: processed_def display_name_def)
  have dK: "distinct (map fst (map stored_item ?K))"
    by (simp add: comp_def fst_stored_item distinct_processed assms(1))
  have same': "map stored_item same =
      filter (\<lambda>x. ?D (fst x) = D) (map stored_item ?K)"
    by (simp add: same filter_map comp_def fst_stored_item)
  from assms(4) have ne': "map stored_item same \<noteq> []" by simp
  from result_lookup [OF dK same' ne', of ?T] obtain rank where
    "map_of ?r D = Some (setitem (snd (with_rate ?T (last (map stored_item same)))) ''rank'' rank)"
    by blast
  with assms(4) have look: "map_of ?r D =
      Some (setitem (setitem (it_stored (loop_body (snd (last same)))) ''rate''
             (rate_value ?T (of_int (it_total (loop_body (snd (last same))))))) ''rank'' rank)"
    by (simp add: last_map with_rate_def stored_item_def total_of_stored)
  then have mem: "(D, setitem (setitem (it_stored (loop_body (snd (last same)))) ''rate''
             (rate_value ?T (of_int (it_total (loop_body (snd (last same))))))) ''rank'' rank)
      \<in> set ?r"
    by (rule map_of_SomeD)
  have dist: "distinct (map fst ?r)" using dK by (rule result_distinct)
  have one: "length (filter (\<lambda>e. fst e = D) ?r) = 1"
    using dist mem by (rule one_entry_per_key)
  have T: "snd (score_loop participants [] 0) = ?Ti"
    by (simp add: score_loop_distinct [OF assms(1)])
  have tot: "getitem (it_stored (loop_body (snd (last same)))) ''total'' =
         Inr (of_int (it_total (loop_body (snd (last same)))))"
    using getitem_total [OF has_total_stored] by (simp add: total_of_stored)
  have rate: "rate_value ?T (of_int (it_total (loop_body (snd (last same))))) =
     py_round (if 0 < snd (score_loop participants [] 0)
               then float_mul
                      (float_truediv (of_int (it_total (loop_body (snd (last same)))))
                         (of_int (snd (score_loop participants [] 0)))) 100
               else 0) 1"
    by (simp add: rate_value_def T)
  show ?thesis
    using r one look tot rate by blast
qed

text \<open>
  The running example with the second and third participant both displayed as
  \<^verbatim>\<open>team\<close>: the entry under \<^verbatim>\<open>team\<close> is the third participant's.
\<close>

theorem display_name_collision_witness:
  "distinct (map fst example_participants)
   \<and> [(''bob'', ''team''), (''carol'', ''team'')] \<noteq> []
   \<and> (\<exists>r. calculate_scores example_participants
             (Some [(''bob'', ''team''), (''carol'', ''team'')]) 0 = Inr r
        \<and> map fst r = [''alice'', ''team'', ''dave'']
        \<and> map_of r ''team'' =
            Some [(''feat/bug PR'', 0), (''document PR'', 0), (''typo PR'', 0),
                  (''feat/bug issue'', 2), (''document issue'', 2), (''total'', 4),
                  (''rate'', 7515381878174515 / 281474976710656), (''rank'', 2)]
        \<and> it_stored (loop_body [(''i_enhancement'', 1), (''i_documentation'', 2)]) =
            [(''feat/bug PR'', 0), (''document PR'', 0), (''typo PR'', 0),
             (''feat/bug issue'', 2), (''document issue'', 2), (''total'', 4)])
   \<and> py_round (float_mul (float_truediv 4 15) 100) 1 = 7515381878174515 / 281474976710656"
proof -
  let ?ui = "[(''bob'', ''team''), (''carol'', ''team'')]"
  let ?same = "[(''bob'', [(''i_enhancement'', 2::int)]),
                (''carol'', [(''i_enhancement'', 1), (''i_documentation'', 2)])]"
  have ne: "?ui \<noteq> []" by simp
  have same: "?same = filter (\<lambda>p. dict_get ?ui (fst p) (fst p) = ''team'')
                  (filter (\<lambda>p. (0::int) \<le> 0 \<or> 0 \<le> it_total (loop_body (snd p)))
                     example_participants)"
    by (simp add: example_participants_def dict_get_def)
  have nes: "?same \<noteq> []" by simp
  from display_name_collision [OF example_distinct ne same nes]
  obtain r rate rank where
    r: "calculate_scores example_participants (Some ?ui) 0 = Inr r"
    and one: "length (filter (\<lambda>e. fst e = ''team'') r) = 1"
    and look: "map_of r ''team'' =
      Some (setitem (setitem (it_stored (loop_body (snd (last ?same)))) ''rate'' rate) ''rank'' rank)"
    by blast
  have st: "it_stored (loop_body [(''i_enhancement'', 1), (''i_documentation'', 2)]) =
            [(''feat/bug PR'', 0), (''document PR'', 0), (''typo PR'', 0),
             (''feat/bug issue'', 2), (''document issue'', 2), (''total'', 4)]"
    by (rule example_iterations)
  have rt: "py_round (float_mul (float_truediv 4 15) 100) 1 = 7515381878174515 / 281474976710656"
    using example_rates(2) by (simp add: rate_value_def)
  from r look st rt example_distinct show ?thesis
    by (auto simp: example_scores_team)
qed

text \<open>
  Claim C2, for every threshold and every relabelling. Let no counter be negative and
  let the grand total \<^verbatim>\<open>total_score_sum\<close> be strictly positive. Then
  \<^const>\<open>calculate_scores\<close> returns, every entry has a \<^verbatim>\<open>"rate"\<close>, and the rates sum
  to 100 times the sum of the returned totals over the grand total, within 0.06 times
  the number of returned entries. So the rates sum to 100 within 0.1 times that number
  whenever the returned totals add up to the grand total; they do when every participant
  that the \<^verbatim>\<open>min_contributions\<close> filter removes has total 0 and no two of the others
  share a display name.
\<close>

theorem rates_sum_to_100:
  assumes "\<forall>p\<in>set participants. \<forall>c\<in>set (snd p). 0 \<le> snd c"
    and "0 < snd (score_loop participants [] 0)"
  shows "\<exists>r. calculate_scores participants user_info min_contributions = Inr r
     \<and> (\<forall>e\<in>set r. getitem (snd e) ''rate'' = Inr (rate_of (snd e))
                 \<and> getitem (snd e) ''total'' = Inr (total_of (snd e)))
     \<and> \<bar>rates_sum r - totals_sum r / of_int (snd (score_loop participants [] 0)) * 100\<bar>
           \<le> (3 / 50) * of_nat (length r)
     \<and> (totals_sum r = of_int (snd (score_loop participants [] 0)) \<longrightarrow>
           \<bar>rates_sum r - 100\<bar> \<le> (1 / 10) * of_nat (length r))
     \<and> (distinct (map fst participants)
          \<and> inj_on (display_name user_info)
                (fst ` set (filter (\<lambda>p. min_contributions \<le> 0
                                      \<or> min_contributions \<le> it_total (loop_body (snd p)))
                             participants))
          \<and> (\<forall>p\<in>set participants. min_contributions \<le> 0
                  \<or> min_contributions \<le> it_total (loop_body (snd p))
                  \<or> it_total (loop_body (snd p)) = 0) \<longrightarrow>
           totals_sum r = of_int (snd (score_loop participants [] 0)))"
proof -
  let ?Ti = "snd (score_loop participants [] 0)"
  let ?T = "of_int ?Ti :: rat"
  let ?scores = "fst (score_loop participants [] 0)"
  let ?xs = "kept min_contributions ?scores"
  let ?r = "ranked (sorted_desc (relabelled user_info (map (with_rate ?T) ?xs)))"
  have r: "calculate_scores participants user_info min_contributions = Inr ?r"
    by (rule calculate_scores_eq)
  have Tsum: "?Ti = (\<Sum>p\<leftarrow>participants. it_total (loop_body (snd p)))"
    by (simp add: score_loop_sum)
  have Tpos: "0 < ?T" using assms(2) by simp
  have nn: "\<forall>p\<in>set participants. 0 \<le> it_total (loop_body (snd p))"
    using assms(1) total_nonneg by blast
  have entry: "\<exists>t. 0 \<le> t \<and> t \<le> ?Ti \<and> total_of (snd e) = of_int t
        \<and> rate_of (snd e) = rate_value ?T (of_int t)
        \<and> getitem (snd e) ''rate'' = Inr (rate_of (snd e))"
    if "e \<in> set ?r" for e
  proof -
    from result_entry [OF that] obtain x rank where x: "x \<in> set ?xs"
      and e: "snd e = setitem (setitem (snd x) ''rate'' (rate_value ?T (total_of (snd x))))
                ''rank'' rank"
      by blast
    from x have "x \<in> set ?scores" by (auto simp: kept_def split: if_splits)
    from score_loop_entries [OF this] obtain p where p: "p \<in> set participants"
      "snd x = it_stored (loop_body (snd p))" by auto
    let ?t = "it_total (loop_body (snd p))"
    have tx: "total_of (snd x) = of_int ?t" by (simp add: p(2) total_of_stored)
    have "0 \<le> ?t" using nn p(1) by blast
    moreover have "?t \<le> ?Ti"
      unfolding Tsum using nn p(1) by (rule member_le_sum_list_int)
    moreover have "total_of (snd e) = of_int ?t"
      using total_of_entry [OF e] tx by simp
    moreover have "rate_of (snd e) = rate_value ?T (of_int ?t)"
      using rate_of_entry [OF e] tx by simp
    moreover have "getitem (snd e) ''rate'' = Inr (rate_of (snd e))"
      using e by (rule getitem_rate_entry)
    ultimately show ?thesis by blast
  qed
  have close: "\<bar>rate_of (snd e) - total_of (snd e) / ?T * 100\<bar> \<le> 3 / 50" if "e \<in> set ?r" for e
  proof -
    from entry [OF that] obtain t where t: "0 \<le> t" "t \<le> ?Ti" "total_of (snd e) = of_int t"
      "rate_of (snd e) = rate_value ?T (of_int t)" by blast
    have "\<bar>py_round (float_mul (float_truediv (rat_of_int t) ?T) 100) 1 - rat_of_int t / ?T * 100\<bar>
        \<le> 3 / 50"
      using t(1,2) Tpos by (intro rate_error) simp_all
    with Tpos show ?thesis by (simp add: t(3,4) rate_value_def)
  qed
  have "\<bar>(\<Sum>e\<leftarrow>?r. rate_of (snd e)) - (\<Sum>e\<leftarrow>?r. total_of (snd e) / ?T * 100)\<bar>
      \<le> (3 / 50) * of_nat (length ?r)"
    by (rule sum_list_error) (rule close)
  moreover have "(\<Sum>e\<leftarrow>?r. total_of (snd e) / ?T * 100) = totals_sum ?r / ?T * 100"
    unfolding totals_sum_def map_map comp_def
    by (rule sum_list_scaled [of "\<lambda>e. total_of (snd e)"])
  moreover have "(\<Sum>e\<leftarrow>?r. rate_of (snd e)) = rates_sum ?r"
    by (simp add: rates_sum_def comp_def)
  ultimately have main: "\<bar>rates_sum ?r - totals_sum ?r / ?T * 100\<bar> \<le> (3 / 50) * of_nat (length ?r)"
    by simp
  have whole: "\<bar>rates_sum ?r - 100\<bar> \<le> (1 / 10) * of_nat (length ?r)" if "totals_sum ?r = ?T"
  proof -
    from main that Tpos have "\<bar>rates_sum ?r - 100\<bar> \<le> (3 / 50) * of_nat (length ?r)" by simp
    also have "\<dots> \<le> (1 / 10) * of_nat (length ?r)" by simp
    finally show ?thesis .
  qed
  have keys: "getitem (snd e) ''rate'' = Inr (rate_of (snd e))
      \<and> getitem (snd e) ''total'' = Inr (total_of (snd e))" if "e \<in> set ?r" for e
    using entry [OF that] calculate_scores_has_total [OF r that] by blast
  have full: "totals_sum ?r = ?T"
    if d: "distinct (map fst participants)"
      and inj: "inj_on (display_name user_info)
                (fst ` set (filter (\<lambda>p. min_contributions \<le> 0
                                      \<or> min_contributions \<le> it_total (loop_body (snd p)))
                             participants))"
      and zero: "\<forall>p\<in>set participants. min_contributions \<le> 0
                  \<or> min_contributions \<le> it_total (loop_body (snd p))
                  \<or> it_total (loop_body (snd p)) = 0"
  proof -
    let ?K = "processed min_contributions participants"
    let ?rated = "map (with_rate ?T) (map stored_item ?K)"
    let ?h = "\<lambda>p. (display_name user_info (fst p), snd p)"
    have xs: "?xs = map stored_item ?K" using d by (rule kept_eq)
    have dr: "distinct (map fst ?rated)"
      using d by (simp add: comp_def fst_with_rate fst_stored_item distinct_processed)
    have "fst ` set ?rated = fst ` set ?K"
      by (simp add: image_image fst_with_rate fst_stored_item)
    with inj have "inj_on (display_name user_info) (fst ` set ?rated)"
      by (simp add: processed_def)
    with dr have rel: "relabelled user_info ?rated = map ?h ?rated" by (rule relabelled_inj)
    have r': "?r = ranked (sorted_desc (map ?h ?rated))"
      by (simp only: xs rel)
    have "totals_sum ?r = (\<Sum>e\<leftarrow>sorted_desc (map ?h ?rated). total_of (snd e))"
      unfolding r' by (simp add: totals_sum_def ranked_def comp_def total_of_with_rank)
    also have "\<dots> = (\<Sum>e\<leftarrow>map ?h ?rated. total_of (snd e))"
      unfolding sorted_desc_def by (rule sum_list_sort_key)
    also have "\<dots> = (\<Sum>p\<leftarrow>?K. rat_of_int (it_total (loop_body (snd p))))"
      by (simp add: comp_def total_of_with_rate stored_item_def total_of_stored)
    also have "\<dots> = rat_of_int (\<Sum>p\<leftarrow>?K. it_total (loop_body (snd p)))"
      by (simp add: of_int_sum_list_map)
    also have "(\<Sum>p\<leftarrow>?K. it_total (loop_body (snd p))) =
        (\<Sum>p\<leftarrow>participants. it_total (loop_body (snd p)))"
      unfolding processed_def by (rule sum_list_filter_zero) (use zero in auto)
    finally show ?thesis by (simp add: Tsum)
  qed
  show ?thesis
    using r keys main whole full by blast
qed

text \<open>
  When the filter removes a participant with a positive total the sum is not near 100:
  the grand total counts every participant, also those removed afterwards. With a
  threshold of 5 only the first of the four example participants is returned, with a
  rate of 40.
\<close>

theorem rates_sum_filtered_counterexample:
  "snd (score_loop example_participants [] 0) = 15
   \<and> calculate_scores example_participants None 5 =
       Inr [(''alice'',
             [(''feat/bug PR'', 6), (''document PR'', 0), (''typo PR'', 0),
              (''feat/bug issue'', 0), (''document issue'', 0), (''total'', 6),
              (''rate'', 40), (''rank'', 1)])]
   \<and> \<not> \<bar>rates_sum [(''alice'',
             [(''feat/bug PR'', 6), (''document PR'', 0), (''typo PR'', 0),
              (''feat/bug issue'', 0), (''document issue'', 0), (''total'', 6),
              (''rate'', 40), (''rank'', 1)])] - 100\<bar>
         \<le> (1 / 10) * of_nat (length [(''alice'',
             [(''feat/bug PR'', 6), (''document PR'', 0), (''typo PR'', 0),
              (''feat/bug issue'', 0), (''document issue'', 0), (''total'', 6),
              (''rate'', 40::rat), (''rank'', 1)])])"
proof -
  have "calculate_scores example_participants None 5 =
       Inr [(''alice'',
             [(''feat/bug PR'', 6), (''document PR'', 0), (''typo PR'', 0),
              (''feat/bug issue'', 0), (''document issue'', 0), (''total'', 6),
              (''rate'', 40), (''rank'', 1)])]"
    unfolding calculate_scores_distinct [OF example_distinct]
    by (simp add: example_participants_def stage_defs example_iterations example_rates)
  then show ?thesis
    by (simp add: example_grand_total rates_sum_def rate_of_def dict_get_def)
qed

text \<open>
  The running example with a fifth participant without any activity and a threshold
  of 1: the fifth is removed, the returned totals still add up to 15, and the four
  rates sum to 100 within the tolerance.
\<close>

theorem rates_sum_to_100_witness:
  "0 < snd (score_loop (example_participants @ [(''eve'', [])]) [] 0)
   \<and> it_total (loop_body []) = 0
   \<and> (\<exists>r. calculate_scores (example_participants @ [(''eve'', [])]) None 1 = Inr r
        \<and> map fst r = [''alice'', ''bob'', ''carol'', ''dave'']
        \<and> totals_sum r = 15
        \<and> \<bar>rates_sum r - totals_sum r / 15 * 100\<bar> \<le> (3 / 50) * of_nat (length r)
        \<and> \<bar>rates_sum r - 100\<bar> \<le> (1 / 10) * of_nat (length r))"
proof -
  let ?ps = "example_participants @ [(''eve'', [])]"
  have nonneg: "\<forall>p\<in>set ?ps. \<forall>c\<in>set (snd p). 0 \<le> snd c"
    by (simp add: example_participants_def)
  have pos: "0 < snd (score_loop ?ps [] 0)"
    by (simp add: example_grand_total_idle)
  have idle: "it_total (loop_body []) = 0" by (rule example_iterations)
  from rates_sum_to_100 [OF nonneg pos, of None 1]
  obtain r where r: "calculate_scores ?ps None 1 = Inr r"
    and main: "\<bar>rates_sum r - totals_sum r / of_int (snd (score_loop ?ps [] 0)) * 100\<bar>
           \<le> (3 / 50) * of_nat (length r)"
    and whole: "totals_sum r = of_int (snd (score_loop ?ps [] 0)) \<longrightarrow>
           \<bar>rates_sum r - 100\<bar> \<le> (1 / 10) * of_nat (length r)"
    by blast
  from r have rr: "map fst r = [''alice'', ''bob'', ''carol'', ''dave'']" "totals_sum r = 15"
    by (auto simp: example_scores_idle totals_sum_def total_of_def dict_get_def)
  from whole rr(2) have "\<bar>rates_sum r - 100\<bar> \<le> (1 / 10) * of_nat (length r)"
    by (simp add: example_grand_total_idle)
  moreover from main have "\<bar>rates_sum r - totals_sum r / 15 * 100\<bar> \<le> (3 / 50) * of_nat (length r)"
    by (simp add: example_grand_total_idle)
  ultimately have "\<exists>r. calculate_scores (example_participants @ [(''eve'', [])]) None 1 = Inr r
        \<and> map fst r = [''alice'', ''bob'', ''carol'', ''dave'']
        \<and> totals_sum r = 15
        \<and> \<bar>rates_sum r - totals_sum r / 15 * 100\<bar> \<le> (3 / 50) * of_nat (length r)
        \<and> \<bar>rates_sum r - 100\<bar> \<le> (1 / 10) * of_nat (length r)"
    using r rr by (intro exI [of _ r] conjI)
  with pos idle show ?thesis by (intro conjI)
qed

text \<open>
  Claim C4. The dictionary returned by \<^const>\<open>calculate_scores\<close> carries competition
  ranks: every entry has a \<^verbatim>\<open>"total"\<close> and a \<^verbatim>\<open>"rank"\<close>, the rank is 1 plus the number
  of returned entries with a strictly greater total, a strictly greater total never has
  a greater rank, and equal totals have equal ranks. This holds for every
  \<^verbatim>\<open>participants\<close>, \<^verbatim>\<open>user_info\<close> and \<^verbatim>\<open>min_contributions\<close>.
\<close>

theorem competition_ranks:
  "\<exists>r. calculate_scores participants user_info min_contributions = Inr r
     \<and> (\<forall>a\<in>set r.
           getitem (snd a) ''total'' = Inr (total_of (snd a))
         \<and> getitem (snd a) ''rank'' = Inr (rank_of (snd a))
         \<and> rank_of (snd a) =
             of_nat (1 + length (filter (\<lambda>b. total_of (snd a) < total_of (snd b)) r)))
     \<and> (\<forall>a\<in>set r. \<forall>b\<in>set r.
           (total_of (snd b) < total_of (snd a) \<longrightarrow> rank_of (snd a) \<le> rank_of (snd b))
         \<and> (total_of (snd a) = total_of (snd b) \<longrightarrow> rank_of (snd a) = rank_of (snd b)))"
proof -
  obtain r where r: "calculate_scores participants user_info min_contributions = Inr r"
    by (simp add: calculate_scores_eq)
  then obtain items where items: "r = ranked items"
    by (auto simp: calculate_scores_eq)
  have rank: "rank_of (snd a) = of_nat (competition_rank items (total_of (snd a)))"
    and grank: "getitem (snd a) ''rank'' = Inr (rank_of (snd a))"
    if "a \<in> set r" for a
  proof -
    from that items obtain q where q: "q \<in> set items" "a = with_rank items q"
      using ranked_entry by blast
    show "rank_of (snd a) = of_nat (competition_rank items (total_of (snd a)))"
      by (simp add: q rank_of_with_rank total_of_with_rank)
    show "getitem (snd a) ''rank'' = Inr (rank_of (snd a))"
      by (simp add: q getitem_rank_with_rank)
  qed
  have formula: "rank_of (snd a) =
      of_nat (1 + length (filter (\<lambda>b. total_of (snd a) < total_of (snd b)) r))"
    if "a \<in> set r" for a
    using rank [OF that] by (simp add: competition_rank_def items count_above_ranked)
  have mono: "rank_of (snd a) \<le> rank_of (snd b)"
    if "a \<in> set r" "b \<in> set r" "total_of (snd b) < total_of (snd a)" for a b
    using rank [OF that(1)] rank [OF that(2)] competition_rank_antimono [of "total_of (snd b)" "total_of (snd a)" items] that(3)
    by simp
  have ties: "rank_of (snd a) = rank_of (snd b)"
    if "a \<in> set r" "b \<in> set r" "total_of (snd a) = total_of (snd b)" for a b
    using rank [OF that(1)] rank [OF that(2)] that(3) by simp
  show ?thesis
    using r calculate_scores_has_total [OF r] grank formula mono ties by blast
qed

text \<open>
  The running example: totals 6, 4, 4, 1 are ranked 1, 2, 2, 4.
\<close>

theorem competition_ranks_witness:
  "\<exists>r. calculate_scores example_participants None 0 = Inr r
     \<and> map fst r = [''alice'', ''bob'', ''carol'', ''dave'']
     \<and> map total_of (map snd r) = [6, 4, 4, 1]
     \<and> map rank_of (map snd r) = [1, 2, 2, 4]"
proof -
  from competition_ranks [of example_participants None 0] obtain r where
    r: "calculate_scores example_participants None 0 = Inr r"
    and rk: "\<forall>a\<in>set r. rank_of (snd a) =
               of_nat (1 + length (filter (\<lambda>b. total_of (snd a) < total_of (snd b)) r))"
    by blast
  from r rk show ?thesis
    by (auto simp: example_scores total_of_def rank_of_def dict_get_def)
qed

section \<open>Averages\<close>

text \<open>
  Claim C9. \<^verbatim>\<open>calculate_averages\<close> of the empty dictionary returns, without an error,
  an entry whose five category fields, \<^verbatim>\<open>"total"\<close> and \<^verbatim>\<open>"rate"\<close> are 0 and which has
  no \<^verbatim>\<open>"rank"\<close>.
\<close>

theorem averages_of_empty:
  "\<exists>averages. calculate_averages [] = Inr averages
     \<and> getitem averages ''feat/bug PR'' = Inr 0
     \<and> getitem averages ''document PR'' = Inr 0
     \<and> getitem averages ''typo PR'' = Inr 0
     \<and> getitem averages ''feat/bug issue'' = Inr 0
     \<and> getitem averages ''document issue'' = Inr 0
     \<and> getitem averages ''total'' = Inr 0
     \<and> getitem averages ''rate'' = Inr 0
     \<and> getitem averages ''rank'' = Inl (KeyError ''rank'')
     \<and> ''rank'' \<notin> fst ` set averages"
  by (simp add: calculate_averages_def getitem_def)

end
